theory Spec2Isabelle
  imports Main "HOL-Library.Word" "HOL-Library.Signed_Division"
begin

unbundle bit_operations_syntax

section \<open>The OSM layer (osm.c)\<close>

text \<open>
  Modelled from the spec: the header osm.h is not among the sources. The getters return
  \<open>int64_t\<close> and their comments speak of nanodegrees, so \<open>OSM_Id\<close>, \<open>OSM_Lat\<close> and
  \<open>OSM_Lon\<close> are taken as \<open>int64_t\<close>, a 64-bit word read with \<open>sint\<close>. The
  counters \<open>num_nodes\<close>, \<open>num_ways\<close> and \<open>num_refs\<close> are C \<open>int\<close>, a 32-bit word.
  A pointer argument is an \<open>option\<close>: \<open>None\<close> is \<open>NULL\<close>.
\<close>

type_synonym int64_t = "64 word"
type_synonym int32_t = "32 word"

record OSM_BBox =
  min_lat :: int64_t
  max_lat :: int64_t
  min_lon :: int64_t
  max_lon :: int64_t

record OSM_Node =
  node_id :: int64_t
  node_lat :: int64_t
  node_lon :: int64_t

record OSM_Way =
  way_id :: int64_t
  num_refs :: int32_t

record OSM_Map =
  bbox :: OSM_BBox
  nodes :: "OSM_Node list option"
  num_nodes :: int32_t
  ways :: "OSM_Way list option"
  num_ways :: int32_t

text \<open>
  Nine accessors of osm.c are not implemented: their body is the call \<open>abort()\<close>,
  which ends the process. Their result is an \<open>ending\<close>; the implemented accessors
  always return and their result is the value itself. A \<open>char *\<close> result is a
  \<open>string option\<close>.
\<close>

datatype 'a ending = Aborts | Yields 'a

definition OSM_Map_get_num_nodes :: "OSM_Map option \<Rightarrow> int32_t" where
  "OSM_Map_get_num_nodes mp = (case mp of None \<Rightarrow> - 1 | Some m \<Rightarrow> num_nodes m)"

definition OSM_Map_get_num_ways :: "OSM_Map option \<Rightarrow> int32_t" where
  "OSM_Map_get_num_ways mp = (case mp of None \<Rightarrow> - 1 | Some m \<Rightarrow> num_ways m)"

definition OSM_Map_get_Node :: "OSM_Map option \<Rightarrow> int32_t \<Rightarrow> OSM_Node option ending" where
  "OSM_Map_get_Node mp idx = Aborts"

definition OSM_Map_get_Way :: "OSM_Map option \<Rightarrow> int32_t \<Rightarrow> OSM_Way option ending" where
  "OSM_Map_get_Way mp idx = Aborts"

definition OSM_Map_get_BBox :: "OSM_Map option \<Rightarrow> OSM_BBox option" where
  "OSM_Map_get_BBox mp = (case mp of None \<Rightarrow> None | Some m \<Rightarrow> Some (bbox m))"

definition OSM_Node_get_id :: "OSM_Node option \<Rightarrow> int64_t" where
  "OSM_Node_get_id np = (case np of None \<Rightarrow> - 1 | Some n \<Rightarrow> node_id n)"

definition OSM_Node_get_lat :: "OSM_Node option \<Rightarrow> int64_t" where
  "OSM_Node_get_lat np = (case np of None \<Rightarrow> - 1 | Some n \<Rightarrow> node_lat n)"

definition OSM_Node_get_lon :: "OSM_Node option \<Rightarrow> int64_t" where
  "OSM_Node_get_lon np = (case np of None \<Rightarrow> - 1 | Some n \<Rightarrow> node_lon n)"

definition OSM_Node_get_num_keys :: "OSM_Node option \<Rightarrow> int32_t ending" where
  "OSM_Node_get_num_keys np = Aborts"

definition OSM_Node_get_key :: "OSM_Node option \<Rightarrow> int32_t \<Rightarrow> string option ending" where
  "OSM_Node_get_key np idx = Aborts"

definition OSM_Node_get_value :: "OSM_Node option \<Rightarrow> int32_t \<Rightarrow> string option ending" where
  "OSM_Node_get_value np idx = Aborts"

definition OSM_Way_get_id :: "OSM_Way option \<Rightarrow> int64_t" where
  "OSM_Way_get_id wp = (case wp of None \<Rightarrow> - 1 | Some w \<Rightarrow> way_id w)"

definition OSM_Way_get_num_refs :: "OSM_Way option \<Rightarrow> int32_t" where
  "OSM_Way_get_num_refs wp = (case wp of None \<Rightarrow> - 1 | Some w \<Rightarrow> num_refs w)"

definition OSM_Way_get_ref :: "OSM_Way option \<Rightarrow> int32_t \<Rightarrow> int64_t ending" where
  "OSM_Way_get_ref wp idx = Aborts"

definition OSM_Way_get_num_keys :: "OSM_Way option \<Rightarrow> int32_t ending" where
  "OSM_Way_get_num_keys wp = Aborts"

definition OSM_Way_get_key :: "OSM_Way option \<Rightarrow> int32_t \<Rightarrow> string option ending" where
  "OSM_Way_get_key wp idx = Aborts"

definition OSM_Way_get_value :: "OSM_Way option \<Rightarrow> int32_t \<Rightarrow> string option ending" where
  "OSM_Way_get_value wp idx = Aborts"

definition OSM_BBox_get_min_lon :: "OSM_BBox option \<Rightarrow> int64_t" where
  "OSM_BBox_get_min_lon bbp = (case bbp of None \<Rightarrow> - 1 | Some b \<Rightarrow> min_lon b)"

definition OSM_BBox_get_max_lon :: "OSM_BBox option \<Rightarrow> int64_t" where
  "OSM_BBox_get_max_lon bbp = (case bbp of None \<Rightarrow> - 1 | Some b \<Rightarrow> max_lon b)"

definition OSM_BBox_get_max_lat :: "OSM_BBox option \<Rightarrow> int64_t" where
  "OSM_BBox_get_max_lat bbp = (case bbp of None \<Rightarrow> - 1 | Some b \<Rightarrow> max_lat b)"

definition OSM_BBox_get_min_lat :: "OSM_BBox option \<Rightarrow> int64_t" where
  "OSM_BBox_get_min_lat bbp = (case bbp of None \<Rightarrow> - 1 | Some b \<Rightarrow> min_lat b)"

subsection \<open>Zig-zag decoding\<close>

text \<open>
  \<open>zigzag_decode\<close> takes and returns \<open>int64_t\<close>; \<open>%\<close> and \<open>/\<close> are C's truncating
  operators (\<open>smod\<close>, \<open>sdiv\<close>), and \<open>-(n+1)/2\<close> parses as \<open>(-(n+1))/2\<close>. The value is
  kept as the mathematical integer that the \<open>int64_t\<close> holds; \<open>int64\<close> writes out the
  two's-complement wrap of \<open>n + 1\<close> and of the negation (C leaves that overflow
  undefined; it only arises at \<open>n = INT64_MAX\<close>).
  \<open>OSM_read_Map\<close> passes the \<open>uint64_t\<close> member \<open>value.i64\<close>, which the call converts
  to \<open>int64_t\<close>: \<open>zigzag_decode_u64\<close> is the function with that conversion.
\<close>

definition int64 :: "int \<Rightarrow> int" where
  "int64 k = sint (word_of_int k :: 64 word)"

definition zigzag_decode :: "int \<Rightarrow> int" where
  "zigzag_decode n =
     (if n smod 2 = 0 then n sdiv 2
      else int64 (- int64 (n + 1)) sdiv 2)"

definition zigzag_decode_u64 :: "64 word \<Rightarrow> int" where
  "zigzag_decode_u64 v = zigzag_decode (sint v)"

text \<open>
  The decoding the spec describes, on the unsigned varint \<open>n\<close>: even \<open>n\<close> gives \<open>n/2\<close>,
  odd \<open>n\<close> gives \<open>-(n+1)/2\<close>.
\<close>

definition zigzag_spec :: "64 word \<Rightarrow> int" where
  "zigzag_spec v = (if even (uint v) then uint v div 2 else - ((uint v + 1) div 2))"

text \<open>The standard protobuf zig-zag encoding of a signed 64-bit value.\<close>

definition zigzag_encode :: "int \<Rightarrow> 64 word" where
  "zigzag_encode k = (if 0 \<le> k then word_of_int (2 * k) else word_of_int (- 2 * k - 1))"

section \<open>The protocol buffer decoder (protobuf.c)\<close>

subsection \<open>C integers, streams and the environment\<close>

text \<open>
  \<open>size_t\<close> is unsigned 64-bit and \<open>int\<close> is signed 32-bit. A \<open>size_t\<close> value is a
  \<open>nat\<close> below \<open>2 ^ 64\<close>, a C \<open>int\<close> is an \<open>int\<close>; the two conversions the source
  makes implicitly are written out.
\<close>

type_synonym byte = "8 word"

definition size_t_of_int :: "int \<Rightarrow> nat" where
  "size_t_of_int i = unat (word_of_int i :: 64 word)"

definition int_of_size_t :: "nat \<Rightarrow> int" where
  "int_of_size_t n = sint (word_of_nat n :: 32 word)"

text \<open>
  A \<open>FILE\<close> opened for reading: the bytes not yet read and the end-of-file indicator.
  \<open>fread n\<close> hands out up to \<open>n\<close> bytes and sets the indicator when fewer than \<open>n\<close>
  were left; \<open>feof\<close> only reads the indicator, so it is false on a fresh stream, also
  an empty one. \<open>fmemopen buf len\<close> is a stream over the first \<open>len\<close> bytes of \<open>buf\<close>.
\<close>

record FILE =
  unread :: "byte list"
  eof_flag :: bool

definition feof :: "FILE \<Rightarrow> bool" where
  "feof fp = eof_flag fp"

definition fread :: "nat \<Rightarrow> FILE \<Rightarrow> byte list \<times> FILE" where
  "fread n fp =
     (take n (unread fp),
      fp\<lparr>unread := drop n (unread fp), eof_flag := (eof_flag fp \<or> length (unread fp) < n)\<rparr>)"

definition fmemopen :: "byte list \<Rightarrow> nat \<Rightarrow> FILE" where
  "fmemopen buf len = \<lparr>unread = take len buf, eof_flag = False\<rparr>"

text \<open>
  What the run of a function depends on besides its arguments: the size of a field node,
  whether \<open>fmemopen\<close> and \<open>open_memstream\<close> return a stream, and the bits found in
  storage that was never written (\<open>junk\<close>).
\<close>

record sys =
  sizeof_PB_Field :: nat
  fmemopen_ok :: bool
  open_memstream_ok :: bool
  junk :: "64 word"

text \<open>
  The heap is the number of bytes that \<open>malloc\<close> can still hand out; the source never
  frees, so the number only goes down. \<open>malloc n\<close> returns storage when \<open>n\<close> bytes
  are left and \<open>NULL\<close> otherwise. Every function that allocates takes the heap and
  returns it, as the last component of its result.
\<close>

definition malloc :: "nat \<Rightarrow> nat \<Rightarrow> bool \<times> nat" where
  "malloc n avail = (if n \<le> avail then (True, avail - n) else (False, avail))"

text \<open>
  A function either returns, or its run leaves defined behaviour (a shift by 64 bits or
  more, a write through \<open>NULL\<close>, a read through a pointer that was never set):
  \<open>Undefined\<close>.
\<close>

datatype 'a outcome = Undefined | Returns 'a

subsection \<open>Fields and messages\<close>

text \<open>
  Modelled from the spec: the header protobuf.h is not among the sources. The wire type
  codes are those of the wire format the spec describes (section 4.3 and the glossary):
  VARINT 0, 64-bit 1, length-delimited 2, the two group types 3 and 4, 32-bit 5. The
  values of \<open>ANY_TYPE\<close>, \<open>SENTINEL_TYPE\<close> and \<open>ANY_FIELD\<close> are not given anywhere;
  they are parameters (\<open>pb_hdr\<close>) of the functions that use them.
\<close>

definition VARINT_TYPE :: int where "VARINT_TYPE = 0"
definition I64_TYPE :: int where "I64_TYPE = 1"
definition LEN_TYPE :: int where "LEN_TYPE = 2"
definition SGROUP_TYPE :: int where "SGROUP_TYPE = 3"
definition EGROUP_TYPE :: int where "EGROUP_TYPE = 4"
definition I32_TYPE :: int where "I32_TYPE = 5"

record pb_hdr =
  ANY_TYPE :: int
  SENTINEL_TYPE :: int
  ANY_FIELD :: int

datatype PB_Direction = FORWARD_DIR | BACKWARD_DIR

text \<open>
  The union \<open>value\<close>: the 64-bit member, the 32-bit member, or the bytes member (a
  buffer, whose length is the member \<open>size\<close>). \<open>Uninit\<close> is storage that was never
  written, or only in part.
\<close>

datatype pb_value = Uninit | I64 "64 word" | I32 "32 word" | Bytes "byte list"

record PB_Field =
  ftype :: int
  number :: int
  fvalue :: pb_value

text \<open>
  A \<open>PB_Message\<close> is a circular doubly linked list around a sentinel node. It is
  modelled by the list of its fields in \<open>next\<close> order, from \<open>msg->next\<close> to
  \<open>msg->prev\<close>; the sentinel itself is the pointer \<open>Head\<close>, and \<open>Node i\<close> points to
  the \<open>i\<close>-th field. Linking a node in before the sentinel is appending to the list.
\<close>

type_synonym PB_Message = "PB_Field list"

datatype field_ptr = Head | Node nat

definition next_ptr :: "PB_Message \<Rightarrow> field_ptr \<Rightarrow> field_ptr" where
  "next_ptr msg p =
     (case p of
        Head \<Rightarrow> (if msg = [] then Head else Node 0)
      | Node i \<Rightarrow> (if Suc i < length msg then Node (Suc i) else Head))"

definition prev_ptr :: "PB_Message \<Rightarrow> field_ptr \<Rightarrow> field_ptr" where
  "prev_ptr msg p =
     (case p of
        Head \<Rightarrow> (if msg = [] then Head else Node (length msg - 1))
      | Node i \<Rightarrow> (if i = 0 then Head else Node (i - 1)))"

text \<open>The field a pointer points to; \<open>None\<close> at the sentinel.\<close>

definition deref :: "PB_Message \<Rightarrow> field_ptr \<Rightarrow> PB_Field option" where
  "deref msg p =
     (case p of
        Head \<Rightarrow> None
      | Node i \<Rightarrow> (if i < length msg then Some (msg ! i) else None))"

text \<open>A node fresh from \<open>malloc\<close>: nothing in it has been written.\<close>

definition fresh_field :: "sys \<Rightarrow> PB_Field" where
  "fresh_field s =
     \<lparr>ftype = sint (ucast (junk s) :: 32 word), number = sint (ucast (junk s) :: 32 word),
      fvalue = Uninit\<rparr>"

subsection \<open>Varints, tags and values\<close>

text \<open>
  \<open>PB_read_varint\<close>: the do-while loop, one \<open>fread\<close> of one byte per round. The
  result is the return value, the stream, and the value assigned to \<open>*value\<close> (\<open>None\<close>
  when the function returns before the assignment). \<open>shift\<close> is a count of bits, 7
  more with every byte. The tenth byte is shifted by 63, which drops its bits beyond
  bit 63; at the eleventh byte the count is 70, and C leaves a shift of a 64-bit value
  by 64 or more undefined.
\<close>

function PB_read_varint_loop ::
  "FILE \<Rightarrow> 64 word \<Rightarrow> nat \<Rightarrow> nat \<Rightarrow> ((nat \<times> 64 word) option \<times> FILE) outcome" where
  "PB_read_varint_loop inp result shift bytes_read =
     (case fread 1 inp of
        (bs, inp') \<Rightarrow>
          if length bs \<noteq> 1 then Returns (None, inp')
          else if 64 \<le> shift then Undefined
          else
            let byte = hd bs;
                result' = result OR push_bit shift (ucast (byte AND 0x7F));
                shift' = shift + 7;
                bytes_read' = bytes_read + 1
            in if byte AND 0x80 \<noteq> 0
               then PB_read_varint_loop inp' result' shift' bytes_read'
               else Returns (Some (bytes_read', result'), inp'))"
  by pat_completeness auto
termination
  by (relation "measure (\<lambda>(inp, result, shift, bytes_read). length (unread inp))")
     (auto simp: fread_def)

declare PB_read_varint_loop.simps [simp del]

definition PB_read_varint :: "FILE \<Rightarrow> (int \<times> FILE \<times> 64 word option) outcome" where
  "PB_read_varint inp =
     (case PB_read_varint_loop inp 0 0 0 of
        Undefined \<Rightarrow> Undefined
      | Returns (None, inp') \<Rightarrow> Returns (- 1, inp', None)
      | Returns (Some (bytes_read, result), inp') \<Rightarrow>
          Returns (int_of_size_t bytes_read, inp', Some result))"

text \<open>
  \<open>PB_read_tag\<close> keeps the result of \<open>PB_read_varint\<close> in a \<open>size_t\<close>, so the test
  \<open>bytes_read < 1\<close> is unsigned. When the varint was cut short, \<open>tag\<close> was never
  assigned and holds \<open>junk\<close>. The result is the return value, the stream, and the
  contents of \<open>*typep\<close> and \<open>*fieldp\<close>.
\<close>

definition PB_read_tag ::
  "sys \<Rightarrow> FILE \<Rightarrow> int \<Rightarrow> int \<Rightarrow> (int \<times> FILE \<times> int \<times> int) outcome" where
  "PB_read_tag s inp typep fieldp =
     (if feof inp then Returns (0, inp, typep, fieldp)
      else
        case PB_read_varint inp of
          Undefined \<Rightarrow> Undefined
        | Returns (r, inp', v) \<Rightarrow>
            let tag = (case v of Some t \<Rightarrow> t | None \<Rightarrow> junk s);
                bytes_read = size_t_of_int r
            in if bytes_read < 1 then Returns (- 1, inp', typep, fieldp)
               else Returns (int_of_size_t bytes_read, inp',
                      uint (tag AND 0x07), sint (ucast (drop_bit 3 tag) :: 32 word)))"

text \<open>
  \<open>PB_read_value\<close>. The fixed-width members are filled by \<open>fread\<close> in the byte order
  of the host, taken as little-endian. In the \<open>LEN_TYPE\<close> case the result of \<open>malloc\<close>
  is not tested: with no buffer and \<open>size > 0\<close>, \<open>fread\<close> writes through \<open>NULL\<close>.
\<close>

definition PB_read_value ::
  "sys \<Rightarrow> nat \<Rightarrow> FILE \<Rightarrow> int \<Rightarrow> pb_value \<Rightarrow> (int \<times> FILE \<times> pb_value \<times> nat) outcome" where
  "PB_read_value s avail inp type valuep =
     (if feof inp then Returns (0, inp, valuep, avail)
      else if type = VARINT_TYPE then
        (case PB_read_varint inp of
           Undefined \<Rightarrow> Undefined
         | Returns (r, inp', v) \<Rightarrow>
             Returns (int_of_size_t (size_t_of_int r), inp',
                      (case v of Some x \<Rightarrow> I64 x | None \<Rightarrow> valuep), avail))
      else if type = I64_TYPE then
        (case fread 8 inp of
           (bs, inp') \<Rightarrow>
             if length bs \<noteq> 8
             then Returns (- 1, inp', (if bs = [] then valuep else Uninit), avail)
             else Returns (int_of_size_t (length bs), inp', I64 (word_rcat (rev bs)), avail))
      else if type = LEN_TYPE then
        (case PB_read_varint inp of
           Undefined \<Rightarrow> Undefined
         | Returns (bytes, inp', v) \<Rightarrow>
             if bytes < 1 then Returns (- 1, inp', valuep, avail)
             else
               let size = unat (case v of Some x \<Rightarrow> x | None \<Rightarrow> junk s);
                   bytes_read = (size_t_of_int bytes + size) mod 2 ^ 64
               in case malloc size avail of
                    (buf_ok, avail') \<Rightarrow>
                      if \<not> buf_ok \<and> 0 < size then Undefined
                      else
                        case fread size inp' of
                          (bs, inp'') \<Rightarrow>
                            if length bs \<noteq> size then Returns (- 1, inp'', Uninit, avail')
                            else Returns (int_of_size_t bytes_read, inp'', Bytes bs, avail'))
      else if type = I32_TYPE then
        (case fread 4 inp of
           (bs, inp') \<Rightarrow>
             if length bs \<noteq> 4
             then Returns (- 1, inp', (if bs = [] then valuep else Uninit), avail)
             else Returns (int_of_size_t (length bs), inp', I32 (word_rcat (rev bs)), avail))
      else Returns (- 1, inp, valuep, avail))"

definition PB_read_field ::
  "sys \<Rightarrow> nat \<Rightarrow> FILE \<Rightarrow> PB_Field \<Rightarrow> (int \<times> FILE \<times> PB_Field \<times> nat) outcome" where
  "PB_read_field s avail inp fieldp =
     (if feof inp then Returns (0, inp, fieldp, avail)
      else
        case PB_read_tag s inp (ftype fieldp) (number fieldp) of
          Undefined \<Rightarrow> Undefined
        | Returns (tag_bytes, inp', ty, num) \<Rightarrow>
            let f1 = \<lparr>ftype = ty, number = num, fvalue = fvalue fieldp\<rparr>
            in if tag_bytes < 1 then Returns (- 1, inp', f1, avail)
               else
                 case PB_read_value s avail inp' (ftype f1) (fvalue f1) of
                   Undefined \<Rightarrow> Undefined
                 | Returns (value_bytes, inp'', v, avail') \<Rightarrow>
                     let f2 = \<lparr>ftype = ty, number = num, fvalue = v\<rparr>
                     in if value_bytes < 1 then Returns (- 1, inp'', f2, avail')
                        else Returns
                          (int_of_size_t
                             ((size_t_of_int tag_bytes + size_t_of_int value_bytes) mod 2 ^ 64),
                           inp'', f2, avail'))"

subsection \<open>Messages\<close>

text \<open>
  Every round of the loop of \<open>PB_read_message\<close> that goes on has read a field of at
  least one byte, so the stream gets shorter: the loop ends.
\<close>

lemma fread_shrinks:
  "fread n fp = (bs, fp') \<Longrightarrow> length (unread fp') + length bs = length (unread fp)"
  by (auto simp: fread_def)

lemma PB_read_varint_loop_shrinks:
  "PB_read_varint_loop inp result shift n = Returns (res, inp') \<Longrightarrow>
   length (unread inp') \<le> length (unread inp) \<and>
   (res \<noteq> None \<longrightarrow> length (unread inp') < length (unread inp))"
proof (induction inp result shift n arbitrary: res inp' rule: PB_read_varint_loop.induct)
  case (1 inp result shift bytes_read)
  obtain bs inp1 where fr: "fread 1 inp = (bs, inp1)" by (cases "fread 1 inp")
  from fread_shrinks [OF fr] have len: "length (unread inp1) + length bs = length (unread inp)" .
  show ?case
  proof (cases "length bs \<noteq> 1")
    case True
    with "1.prems" fr len show ?thesis
      by (subst (asm) PB_read_varint_loop.simps) auto
  next
    case one: False
    show ?thesis
    proof (cases "64 \<le> shift")
      case True
      with "1.prems" fr one show ?thesis
        by (subst (asm) PB_read_varint_loop.simps) simp
    next
      case small: False
      show ?thesis
      proof (cases "hd bs AND 0x80 \<noteq> 0")
        case True
        with "1.prems" fr one small have
          "PB_read_varint_loop inp1 (result OR push_bit shift (ucast (hd bs AND 0x7F)))
             (shift + 7) (bytes_read + 1) = Returns (res, inp')"
          by (subst (asm) PB_read_varint_loop.simps) (simp add: Let_def)
        from "1.IH" [OF fr [symmetric] _ small refl refl refl refl _ this] one True len
        show ?thesis by auto
      next
        case False
        with "1.prems" fr one small len show ?thesis
          by (subst (asm) PB_read_varint_loop.simps) (auto simp: Let_def)
      qed
    qed
  qed
qed

lemma PB_read_varint_shrinks:
  "PB_read_varint inp = Returns (r, inp', v) \<Longrightarrow>
   length (unread inp') \<le> length (unread inp) \<and>
   (v \<noteq> None \<longrightarrow> length (unread inp') < length (unread inp))"
  unfolding PB_read_varint_def
  by (auto split: outcome.splits prod.splits option.splits dest: PB_read_varint_loop_shrinks)

lemma PB_read_varint_fail: "PB_read_varint inp = Returns (r, inp', None) \<Longrightarrow> r = - 1"
  unfolding PB_read_varint_def by (auto split: outcome.splits prod.splits option.splits)

lemma int_roundtrip:
  assumes "- (2 ^ 31) \<le> r" and "r < 2 ^ 31"
  shows "int_of_size_t (size_t_of_int r) = r"
proof -
  have "(word_of_nat (unat (word_of_int r :: 64 word)) :: 32 word) = ucast (word_of_int r :: 64 word)"
    by simp
  also have "\<dots> = (word_of_int r :: 32 word)"
    by (rule bit_word_eqI) (simp add: bit_simps)
  finally have "int_of_size_t (size_t_of_int r) = sint (word_of_int r :: 32 word)"
    unfolding int_of_size_t_def size_t_of_int_def by simp
  also have "\<dots> = signed_take_bit 31 r"
    by (simp only: sint_sbintrunc') simp
  also have "\<dots> = r"
    using assms by (intro signed_take_bit_int_eq_self) auto
  finally show ?thesis .
qed

lemma int_of_size_t_max: "int_of_size_t (size_t_of_int (- 1)) = - 1"
  by (rule int_roundtrip) simp_all

lemma fread_le: "fread n fp = (bs, fp') \<Longrightarrow> length (unread fp') \<le> length (unread fp)"
  by (auto simp: fread_def)

lemma PB_read_varint_le:
  "PB_read_varint inp = Returns (r, inp', v) \<Longrightarrow> length (unread inp') \<le> length (unread inp)"
  by (auto dest: PB_read_varint_shrinks)

lemma PB_read_tag_shrinks:
  assumes "PB_read_tag s inp ty num = Returns (r, inp', ty', num')" and "1 \<le> r"
  shows "length (unread inp') < length (unread inp)"
proof -
  from assms obtain r0 inp0 v where rv: "PB_read_varint inp = Returns (r0, inp0, v)"
    by (cases "PB_read_varint inp") (auto simp: PB_read_tag_def split: if_splits)
  show ?thesis
  proof (cases v)
    case None
    with rv have "r0 = - 1" by (auto dest: PB_read_varint_fail)
    with assms rv None have False
      by (auto simp: PB_read_tag_def Let_def int_of_size_t_max split: if_splits)
    then show ?thesis ..
  next
    case (Some t)
    with rv have "length (unread inp0) < length (unread inp)"
      by (auto dest: PB_read_varint_shrinks)
    moreover from assms rv have "inp' = inp0"
      by (auto simp: PB_read_tag_def Let_def split: if_splits)
    ultimately show ?thesis by simp
  qed
qed

lemma PB_read_value_shrinks:
  assumes "PB_read_value s avail inp ty v = Returns (r, inp', v', avail')"
  shows "length (unread inp') \<le> length (unread inp)"
proof (cases "PB_read_varint inp")
  case Undefined
  obtain bs8 inp8 where f8: "fread 8 inp = (bs8, inp8)" by (cases "fread 8 inp")
  obtain bs4 inp4 where f4: "fread 4 inp = (bs4, inp4)" by (cases "fread 4 inp")
  note le8 = fread_le [OF f8] and le4 = fread_le [OF f4]
  from assms have "inp' = inp \<or> inp' = inp8 \<or> inp' = inp4"
    unfolding PB_read_value_def
    by (simp add: Undefined f8 f4 split: if_splits)
  with le8 le4 show ?thesis by auto
next
  case (Returns x)
  then obtain r0 inp0 v0 where rv: "PB_read_varint inp = Returns (r0, inp0, v0)"
    by (cases x) auto
  note le0 = PB_read_varint_le [OF rv]
  obtain bs8 inp8 where f8: "fread 8 inp = (bs8, inp8)" by (cases "fread 8 inp")
  obtain bs4 inp4 where f4: "fread 4 inp = (bs4, inp4)" by (cases "fread 4 inp")
  obtain bsn inpn where fn:
    "fread (unat (case v0 of Some x \<Rightarrow> x | None \<Rightarrow> junk s)) inp0 = (bsn, inpn)"
    by (cases "fread (unat (case v0 of Some x \<Rightarrow> x | None \<Rightarrow> junk s)) inp0")
  note le8 = fread_le [OF f8] and le4 = fread_le [OF f4] and len = fread_le [OF fn]
  from assms have "inp' = inp \<or> inp' = inp0 \<or> inp' = inp8 \<or> inp' = inp4 \<or> inp' = inpn"
    unfolding PB_read_value_def
    by (simp add: rv f8 f4 fn Let_def split: if_splits prod.splits)
  with le0 le8 le4 len show ?thesis by auto
qed

lemma PB_read_field_shrinks:
  assumes "PB_read_field s avail inp f = Returns (r, inp', f', avail')" and "1 \<le> r"
  shows "length (unread inp') < length (unread inp)"
proof -
  from assms obtain tb inp1 ty num where
    tg: "PB_read_tag s inp (ftype f) (number f) = Returns (tb, inp1, ty, num)"
    by (cases "PB_read_tag s inp (ftype f) (number f)")
       (auto simp: PB_read_field_def split: if_splits)
  from assms tg have tb: "1 \<le> tb"
    by (auto simp: PB_read_field_def Let_def split: if_splits)
  note lt = PB_read_tag_shrinks [OF tg tb]
  from assms tg tb obtain vb v where
    "PB_read_value s avail inp1 ty (fvalue f) = Returns (vb, inp', v, avail')"
    by (auto simp: PB_read_field_def Let_def split: if_splits outcome.splits)
  from PB_read_value_shrinks [OF this] lt show ?thesis by simp
qed

text \<open>
  The loop of \<open>PB_read_message\<close>: \<open>head\<close> is the list built so far. The result is
  the stream, the list (or \<open>None\<close> for \<open>return -1\<close>) and the heap.
\<close>

function PB_read_message_loop ::
  "sys \<Rightarrow> nat \<Rightarrow> FILE \<Rightarrow> nat \<Rightarrow> PB_Message \<Rightarrow> nat
   \<Rightarrow> (FILE \<times> PB_Message option \<times> nat) outcome" where
  "PB_read_message_loop s avail inp len head bytes_read =
     (if bytes_read < len then
        case malloc (sizeof_PB_Field s) avail of
          (node_ok, avail1) \<Rightarrow>
            if \<not> node_ok then Returns (inp, None, avail1)
            else
              case PB_read_field s avail1 inp (fresh_field s) of
                Undefined \<Rightarrow> Undefined
              | Returns (bytes, inp', cur_field, avail2) \<Rightarrow>
                  if bytes < 1 then Returns (inp', None, avail2)
                  else PB_read_message_loop s avail2 inp' len (head @ [cur_field])
                         ((bytes_read + size_t_of_int bytes) mod 2 ^ 64)
      else Returns (inp, Some head, avail))"
  by pat_completeness auto
termination PB_read_message_loop
  by (relation "measure (\<lambda>(s, avail, inp, len, head, bytes_read). length (unread inp))")
     (auto dest: PB_read_field_shrinks)

declare PB_read_message_loop.simps [simp del]

text \<open>
  \<open>msgp\<close> is the caller's variable: its content before the call goes in, its content
  after the call comes out. The only assignment is \<open>*msgp = head\<close> after the loop.
\<close>

definition PB_read_message ::
  "sys \<Rightarrow> nat \<Rightarrow> FILE \<Rightarrow> nat \<Rightarrow> PB_Message option
   \<Rightarrow> (int \<times> FILE \<times> PB_Message option \<times> nat) outcome" where
  "PB_read_message s avail inp len msgp =
     (if feof inp then Returns (0, inp, msgp, avail)
      else
        case malloc (sizeof_PB_Field s) avail of
          (head_ok, avail1) \<Rightarrow>
            if \<not> head_ok then Returns (- 1, inp, msgp, avail1)
            else
              case PB_read_message_loop s avail1 inp len [] 0 of
                Undefined \<Rightarrow> Undefined
              | Returns (inp', None, avail2) \<Rightarrow> Returns (- 1, inp', msgp, avail2)
              | Returns (inp', Some head, avail2) \<Rightarrow> Returns (1, inp', Some head, avail2))"

definition PB_read_embedded_message ::
  "sys \<Rightarrow> nat \<Rightarrow> byte list option \<Rightarrow> nat \<Rightarrow> PB_Message option
   \<Rightarrow> (int \<times> PB_Message option \<times> nat) outcome" where
  "PB_read_embedded_message s avail buf len msgp =
     (case buf of
        None \<Rightarrow> Returns (- 1, msgp, avail)
      | Some b \<Rightarrow>
          if len = 0 then Returns (0, msgp, avail)
          else if \<not> fmemopen_ok s then Returns (- 1, msgp, avail)
          else
            case PB_read_message s avail (fmemopen b len) len msgp of
              Undefined \<Rightarrow> Undefined
            | Returns (result, inp', msgp', avail') \<Rightarrow> Returns (result, msgp', avail'))"

text \<open>
  \<open>zlib_inflate\<close> (zlib_inflate.h) is not among the sources: it is a parameter, a
  function from the compressed bytes to the bytes it wrote to the output stream, tagged
  with whether it reported success. \<open>PB_inflate_embedded_message\<close> drops its return
  value and goes on with what was \<open>written\<close>. The function has the compressed buffer
  and its length as arguments and no expected length of the output.
\<close>

datatype inflate_result = Inflate_ok "byte list" | Inflate_error "byte list"

definition written :: "inflate_result \<Rightarrow> byte list" where
  "written r = (case r of Inflate_ok out \<Rightarrow> out | Inflate_error out \<Rightarrow> out)"

definition PB_inflate_embedded_message ::
  "sys \<Rightarrow> nat \<Rightarrow> (byte list \<Rightarrow> inflate_result) \<Rightarrow> byte list option \<Rightarrow> nat
   \<Rightarrow> PB_Message option \<Rightarrow> (int \<times> PB_Message option \<times> nat) outcome" where
  "PB_inflate_embedded_message s avail zlib_inflate buf len msgp =
     (case buf of
        None \<Rightarrow> Returns (- 1, msgp, avail)
      | Some b \<Rightarrow>
          if len = 0 then Returns (0, msgp, avail)
          else if \<not> fmemopen_ok s then Returns (- 1, msgp, avail)
          else if \<not> open_memstream_ok s then Returns (- 1, msgp, avail)
          else
            let outbuf = written (zlib_inflate (unread (fmemopen b len)));
                outlen = length outbuf
            in PB_read_embedded_message s avail (Some outbuf) outlen msgp)"

subsection \<open>Lookup\<close>

text \<open>
  The loop of \<open>PB_next_field\<close> from the first node examined. \<open>None\<close> is the \<open>NULL\<close>
  result, \<open>Some p\<close> the pointer to the field found.
\<close>

function PB_next_field_loop ::
  "pb_hdr \<Rightarrow> PB_Message \<Rightarrow> field_ptr \<Rightarrow> int \<Rightarrow> int \<Rightarrow> PB_Direction \<Rightarrow> field_ptr option" where
  "PB_next_field_loop h msg cur fnum type dir =
     (case deref msg cur of
        None \<Rightarrow> None
      | Some f \<Rightarrow>
          if ftype f = SENTINEL_TYPE h then None
          else if fnum = ANY_FIELD h \<or> number f = fnum then
            (if type = ANY_TYPE h \<or> ftype f = type then Some cur else None)
          else PB_next_field_loop h msg
                 (if dir = FORWARD_DIR then next_ptr msg cur else prev_ptr msg cur)
                 fnum type dir)"
  by pat_completeness auto
termination
  by (relation "measure (\<lambda>(h, msg, cur, fnum, type, dir).
        case cur of Head \<Rightarrow> 0
        | Node i \<Rightarrow> (if dir = FORWARD_DIR then length msg - i else Suc i))")
     (auto simp: deref_def next_ptr_def prev_ptr_def split: field_ptr.splits if_splits)

declare PB_next_field_loop.simps [simp del]

definition PB_next_field ::
  "pb_hdr \<Rightarrow> PB_Message \<Rightarrow> field_ptr \<Rightarrow> int \<Rightarrow> int \<Rightarrow> PB_Direction \<Rightarrow> field_ptr option" where
  "PB_next_field h msg prev fnum type dir =
     PB_next_field_loop h msg
       (if dir = FORWARD_DIR then next_ptr msg prev else prev_ptr msg prev) fnum type dir"

definition PB_get_field :: "pb_hdr \<Rightarrow> PB_Message \<Rightarrow> int \<Rightarrow> int \<Rightarrow> field_ptr option" where
  "PB_get_field h msg fnum type = PB_next_field h msg Head fnum type BACKWARD_DIR"

subsection \<open>Expansion of packed fields\<close>

text \<open>
  The outer loop of \<open>PB_expand_packed_fields\<close> can go on forever, so the loops are
  partial functions into \<open>option\<close>: \<open>None\<close> is a run that never returns. The inner
  loop returns \<open>Some e\<close> for \<open>return e\<close> out of the whole function and \<open>None\<close> when the
  loop ends. It allocates a node in every round, so with nodes of a size above 0 it ends
  at the latest when the heap is used up, with \<open>return -1\<close>. \<open>bytes_read\<close> is a
  \<open>size_t\<close>, so the test \<open>bytes_read < 0\<close> is on an unsigned value, and
  \<open>size -= bytes_read\<close> wraps. The new node is linked in before the sentinel: appended
  to the list. The outer loop moves \<open>cur\<close> on only inside the branch
  \<open>cur->number == fnum\<close>.
\<close>

partial_function (option) expand_inner ::
  "sys \<Rightarrow> nat \<Rightarrow> FILE \<Rightarrow> nat \<Rightarrow> int \<Rightarrow> int \<Rightarrow> PB_Message
   \<Rightarrow> (int option \<times> PB_Message \<times> nat) outcome option" where
  "expand_inner s avail stream sz fnum type msg =
     (if 0 < sz then
        case malloc (sizeof_PB_Field s) avail of
          (node_ok, avail1) \<Rightarrow>
            if \<not> node_ok then Some (Returns (Some (- 1), msg, avail1))
            else
              case PB_read_value s avail1 stream type Uninit of
                Undefined \<Rightarrow> Some Undefined
              | Returns (r, stream', v, avail2) \<Rightarrow>
                  let bytes_read = size_t_of_int r
                  in if bytes_read < 0 then Some (Returns (None, msg, avail2))
                     else expand_inner s avail2 stream' ((sz + 2 ^ 64 - bytes_read) mod 2 ^ 64)
                            fnum type (msg @ [\<lparr>ftype = type, number = fnum, fvalue = v\<rparr>])
      else Some (Returns (None, msg, avail)))"

partial_function (option) expand_outer ::
  "pb_hdr \<Rightarrow> sys \<Rightarrow> nat \<Rightarrow> PB_Message \<Rightarrow> field_ptr \<Rightarrow> int \<Rightarrow> int
   \<Rightarrow> (int \<times> PB_Message \<times> nat) outcome option" where
  "expand_outer h s avail msg cur fnum type =
     (case deref msg cur of
        None \<Rightarrow> Some (Returns (1, msg, avail))
      | Some f \<Rightarrow>
          if ftype f = SENTINEL_TYPE h then Some (Returns (1, msg, avail))
          else if number f = fnum then
            (if ftype f = LEN_TYPE then
               (case fvalue f of
                  Bytes buf \<Rightarrow>
                    if \<not> fmemopen_ok s then Some (Returns (- 1, msg, avail))
                    else
                      Option.bind
                        (expand_inner s avail (fmemopen buf (length buf)) (length buf)
                           fnum type msg)
                        (\<lambda>r. case r of
                               Undefined \<Rightarrow> Some Undefined
                             | Returns (Some e, msg', avail') \<Rightarrow> Some (Returns (e, msg', avail'))
                             | Returns (None, msg', avail') \<Rightarrow>
                                 expand_outer h s avail' msg' (next_ptr msg' cur) fnum type)
                | _ \<Rightarrow> Some Undefined)
             else expand_outer h s avail msg (next_ptr msg cur) fnum type)
          else expand_outer h s avail msg cur fnum type)"

definition PB_expand_packed_fields ::
  "pb_hdr \<Rightarrow> sys \<Rightarrow> nat \<Rightarrow> PB_Message \<Rightarrow> int \<Rightarrow> int
   \<Rightarrow> (int \<times> PB_Message \<times> nat) outcome option" where
  "PB_expand_packed_fields h s avail msg fnum type =
     expand_outer h s avail msg (next_ptr msg Head) fnum type"

subsection \<open>The decoding the spec describes\<close>

text \<open>
  The value of a varint as the spec words it: the low 7 bits of each byte, at
  successively higher bit positions, 7 bits per byte, starting at position \<open>pos\<close>.
\<close>

fun varint_value :: "byte list \<Rightarrow> nat \<Rightarrow> 64 word" where
  "varint_value [] pos = 0"
| "varint_value (b # bs) pos = push_bit pos (ucast (b AND 0x7F)) OR varint_value bs (pos + 7)"

subsection \<open>Concrete inputs\<close>

text \<open>
  One choice of the three values that protobuf.h would give, one environment (a field
  node of 40 bytes, the streams open, unwritten storage holds zeros) and one heap, of
  \<open>2 ^ 47\<close> bytes, the user address space of a 64-bit machine.
\<close>

definition example_hdr :: pb_hdr where
  "example_hdr = \<lparr>ANY_TYPE = - 1, SENTINEL_TYPE = - 2, ANY_FIELD = - 1\<rparr>"

definition example_sys :: sys where
  "example_sys = \<lparr>sizeof_PB_Field = 40, fmemopen_ok = True, open_memstream_ok = True, junk = 0\<rparr>"

definition example_heap :: nat where
  "example_heap = 2 ^ 47"

text \<open>A message whose only field has number 2.\<close>

definition other_number_msg :: PB_Message where
  "other_number_msg = [\<lparr>ftype = VARINT_TYPE, number = 2, fvalue = I64 5\<rparr>]"

text \<open>
  The packed varints 1, 300, 65535 in a field number 1, followed by one more field
  number 1; and the three fields of the expansion.
\<close>

definition packed_bytes :: "byte list" where
  "packed_bytes = [0x01, 0xAC, 0x02, 0xFF, 0xFF, 0x03]"

definition packed_msg :: PB_Message where
  "packed_msg =
     [\<lparr>ftype = LEN_TYPE, number = 1, fvalue = Bytes packed_bytes\<rparr>,
      \<lparr>ftype = VARINT_TYPE, number = 1, fvalue = I64 7\<rparr>]"

definition expanded_fields :: PB_Message where
  "expanded_fields =
     [\<lparr>ftype = VARINT_TYPE, number = 1, fvalue = I64 1\<rparr>,
      \<lparr>ftype = VARINT_TYPE, number = 1, fvalue = I64 300\<rparr>,
      \<lparr>ftype = VARINT_TYPE, number = 1, fvalue = I64 65535\<rparr>]"

text \<open>Field number 1 twice, first as a varint and last as bytes, then a field number 2.\<close>

definition lookup_msg :: PB_Message where
  "lookup_msg =
     [\<lparr>ftype = VARINT_TYPE, number = 1, fvalue = I64 7\<rparr>,
      \<lparr>ftype = LEN_TYPE, number = 1, fvalue = Bytes []\<rparr>,
      \<lparr>ftype = VARINT_TYPE, number = 2, fvalue = I64 9\<rparr>]"

text \<open>A two-byte field (number 1, varint 1) and one more byte.\<close>

definition overrun_stream :: FILE where
  "overrun_stream = \<lparr>unread = [0x08, 0x01, 0xFF], eof_flag = False\<rparr>"

text \<open>
  A length-delimited field number 1 whose length varint is \<open>2 ^ 62\<close>, and one byte of
  content.
\<close>

definition huge_len_stream :: FILE where
  "huge_len_stream =
     \<lparr>unread = [0x0A, 0x80, 0x80, 0x80, 0x80, 0x80, 0x80, 0x80, 0x80, 0x40, 0x00],
      eof_flag = False\<rparr>"

text \<open>A varint of eleven bytes: ten continuation bytes and a last byte.\<close>

definition long_varint :: "byte list" where
  "long_varint = [0x80, 0x80, 0x80, 0x80, 0x80, 0x80, 0x80, 0x80, 0x80, 0x80, 0x01]"

text \<open>
  A zlib stream (one stored block) of the two bytes \<open>08 01\<close>, an inflater that knows
  this one stream and reports an error on anything else, and a Blob message that
  declares an uncompressed size of 5 for it.
\<close>

definition example_zdata :: "byte list" where
  "example_zdata =
     [0x78, 0x01, 0x01, 0x02, 0x00, 0xFD, 0xFF, 0x08, 0x01, 0x00, 0x13, 0x00, 0x0A]"

definition example_inflate :: "byte list \<Rightarrow> inflate_result" where
  "example_inflate bs =
     (if bs = example_zdata then Inflate_ok [0x08, 0x01] else Inflate_error [])"

definition example_blob :: PB_Message where
  "example_blob =
     [\<lparr>ftype = VARINT_TYPE, number = 2, fvalue = I64 5\<rparr>,
      \<lparr>ftype = LEN_TYPE, number = 3, fvalue = Bytes example_zdata\<rparr>]"

section \<open>Theorems\<close>

subsection \<open>Zig-zag decoding\<close>

lemma zigzag_encode_max: "zigzag_encode 9223372036854775807 = 0xFFFFFFFFFFFFFFFE"
  by (simp add: zigzag_encode_def)

lemma zigzag_encode_min: "zigzag_encode (- 9223372036854775808) = 0xFFFFFFFFFFFFFFFF"
  by (simp add: zigzag_encode_def)

lemma sint_max_enc: "sint (0xFFFFFFFFFFFFFFFE :: 64 word) = - 2"
  by simp

lemma sint_min_enc: "sint (0xFFFFFFFFFFFFFFFF :: 64 word) = - 1"
  by simp

text \<open>
  C3. Zig-zag decoding is to be the exact inverse of zig-zag encoding on all of
  \<open>int64\<close>, the extremes included. \<open>zigzag_decode\<close> takes its argument as
  \<open>int64_t\<close>, so an encoding with the top bit set is read as a negative number: the
  encoding of \<open>INT64_MAX\<close> decodes to \<open>-1\<close> and the encoding of \<open>INT64_MIN\<close> decodes
  to \<open>0\<close>, where the decoding the spec describes gives back the two values.
\<close>

theorem zigzag_decode_extremes:
  "zigzag_decode_u64 (zigzag_encode 9223372036854775807) = - 1
   \<and> zigzag_spec (zigzag_encode 9223372036854775807) = 9223372036854775807
   \<and> zigzag_decode_u64 (zigzag_encode (- 9223372036854775808)) = 0
   \<and> zigzag_spec (zigzag_encode (- 9223372036854775808)) = - 9223372036854775808"
proof -
  have a: "zigzag_decode_u64 0xFFFFFFFFFFFFFFFE = - 1"
    unfolding zigzag_decode_u64_def sint_max_enc zigzag_decode_def
    by (simp add: signed_divide_int_def signed_modulo_int_def)
  have b: "zigzag_spec 0xFFFFFFFFFFFFFFFE = 9223372036854775807"
    unfolding zigzag_spec_def by simp
  have c: "zigzag_decode_u64 0xFFFFFFFFFFFFFFFF = 0"
    unfolding zigzag_decode_u64_def sint_min_enc zigzag_decode_def
    by (simp add: signed_divide_int_def signed_modulo_int_def int64_def)
  have d: "zigzag_spec 0xFFFFFFFFFFFFFFFF = - 9223372036854775808"
    unfolding zigzag_spec_def by simp
  from a b c d show ?thesis
    unfolding zigzag_encode_max zigzag_encode_min by simp
qed

text \<open>
  Below \<open>2 ^ 63 - 1\<close> the argument is the same number as \<open>int64_t\<close>, and the
  function is the decoding the spec describes.
\<close>

lemma zigzag_decode_below_2_63:
  assumes "uint v < 2 ^ 63 - 1"
  shows "zigzag_decode_u64 v = zigzag_spec v"
proof -
  let ?n = "uint v"
  have n0: "0 \<le> ?n" by simp
  have "sint v = signed_take_bit 63 ?n"
    by (simp add: sint_uint)
  also have "\<dots> = ?n"
  proof (rule signed_take_bit_int_eq_self)
    show "- (2 ^ 63) \<le> ?n" by (rule order_trans [of _ 0]) simp_all
    show "?n < 2 ^ 63" using assms by simp
  qed
  finally have s: "sint v = ?n" .
  show ?thesis
  proof (cases "even ?n")
    case True
    then have "?n smod 2 = 0" "?n sdiv 2 = ?n div 2"
      using n0 by (auto simp: signed_modulo_int_def signed_divide_int_def sgn_if)
    with True show ?thesis
      by (simp add: zigzag_decode_u64_def zigzag_decode_def zigzag_spec_def s)
  next
    case False
    then have m: "?n smod 2 \<noteq> 0"
      using n0 by (auto simp: signed_modulo_int_def sgn_if odd_iff_mod_2_eq_one)
    have ge: "0 \<le> ?n" by simp
    have a: "int64 (?n + 1) = ?n + 1"
    proof -
      have "int64 (?n + 1) = signed_take_bit 63 (?n + 1)"
        unfolding int64_def by (simp only: sint_sbintrunc') simp
      also have "\<dots> = ?n + 1"
        using assms ge by (intro signed_take_bit_int_eq_self) linarith+
      finally show ?thesis .
    qed
    have b: "int64 (- (?n + 1)) = - (?n + 1)"
    proof -
      have "int64 (- (?n + 1)) = signed_take_bit 63 (- (?n + 1))"
        unfolding int64_def by (simp only: sint_sbintrunc') simp
      also have "\<dots> = - (?n + 1)"
        using assms ge by (intro signed_take_bit_int_eq_self) linarith+
      finally show ?thesis .
    qed
    have "(- (k + 1)) sdiv 2 = - ((k + 1) div 2)" if "0 \<le> k" for k :: int
      using that by (simp add: signed_divide_int_def sgn_if add.commute)
    from this [OF ge] have c: "(- (?n + 1)) sdiv 2 = - ((?n + 1) div 2)" .
    from m have "zigzag_decode ?n = int64 (- int64 (?n + 1)) sdiv 2"
      unfolding zigzag_decode_def by (simp only: if_False)
    also have "\<dots> = (- (?n + 1)) sdiv 2" by (simp only: a b)
    also have "\<dots> = - ((?n + 1) div 2)" by (rule c)
    finally have d: "zigzag_decode_u64 v = - ((?n + 1) div 2)"
      by (simp only: zigzag_decode_u64_def s)
    from False have "zigzag_spec v = - ((?n + 1) div 2)"
      unfolding zigzag_spec_def by (simp only: if_False)
    with d show ?thesis by (simp only:)
  qed
qed

subsection \<open>Varints\<close>

lemma fread_Nil:
  "fread (Suc 0) \<lparr>unread = [], eof_flag = e\<rparr> = ([], \<lparr>unread = [], eof_flag = True\<rparr>)"
  by (simp add: fread_def)

lemma fread_Cons:
  "fread (Suc 0) \<lparr>unread = b # rest, eof_flag = e\<rparr> = ([b], \<lparr>unread = rest, eof_flag = e\<rparr>)"
  by (simp add: fread_def)

lemma varint_loop_Nil:
  "PB_read_varint_loop \<lparr>unread = [], eof_flag = e\<rparr> r sh n =
     Returns (None, \<lparr>unread = [], eof_flag = True\<rparr>)"
  by (subst PB_read_varint_loop.simps) (simp add: fread_Nil)

lemma varint_loop_Cons:
  "sh < 64 \<Longrightarrow>
   PB_read_varint_loop \<lparr>unread = b # rest, eof_flag = e\<rparr> r sh n =
     (if b AND 0x80 \<noteq> 0
      then PB_read_varint_loop \<lparr>unread = rest, eof_flag = e\<rparr>
             (r OR push_bit sh (ucast (b AND 0x7F))) (sh + 7) (n + 1)
      else Returns (Some (n + 1, r OR push_bit sh (ucast (b AND 0x7F))),
                    \<lparr>unread = rest, eof_flag = e\<rparr>))"
  by (subst PB_read_varint_loop.simps) (simp add: fread_Cons Let_def)

lemma varint_loop_over:
  "64 \<le> sh \<Longrightarrow> PB_read_varint_loop \<lparr>unread = b # rest, eof_flag = e\<rparr> r sh n = Undefined"
  by (subst PB_read_varint_loop.simps) (simp add: fread_Cons)

lemma varint_loop_run:
  "\<forall>b\<in>set bs. b AND 0x80 \<noteq> 0 \<Longrightarrow> t AND 0x80 = 0 \<Longrightarrow> sh + 7 * length bs < 64 \<Longrightarrow>
   PB_read_varint_loop \<lparr>unread = bs @ t # rest, eof_flag = e\<rparr> r sh n =
     Returns (Some (n + length bs + 1, r OR varint_value (bs @ [t]) sh),
              \<lparr>unread = rest, eof_flag = e\<rparr>)"
proof (induction bs arbitrary: r sh n)
  case Nil
  then show ?case by (simp add: varint_loop_Cons)
next
  case (Cons b bs)
  from Cons.prems have sh: "sh < 64" and rest: "(sh + 7) + 7 * length bs < 64" by simp_all
  from Cons.prems Cons.IH [OF _ _ rest] show ?case
    by (simp add: varint_loop_Cons [OF sh] or.assoc)
qed

lemma varint_loop_truncated:
  "\<forall>b\<in>set bs. b AND 0x80 \<noteq> 0 \<Longrightarrow> sh + 7 * length bs < 71 \<Longrightarrow>
   PB_read_varint_loop \<lparr>unread = bs, eof_flag = e\<rparr> r sh n =
     Returns (None, \<lparr>unread = [], eof_flag = True\<rparr>)"
proof (induction bs arbitrary: r sh n)
  case Nil
  then show ?case by (simp add: varint_loop_Nil)
next
  case (Cons b bs)
  from Cons.prems have sh: "sh < 64" and rest: "(sh + 7) + 7 * length bs < 71" by simp_all
  from Cons.prems Cons.IH [OF _ rest] show ?case
    by (simp add: varint_loop_Cons [OF sh])
qed

lemma varint_loop_long:
  "\<forall>b\<in>set bs. b AND 0x80 \<noteq> 0 \<Longrightarrow> 64 \<le> sh + 7 * length bs \<Longrightarrow>
   PB_read_varint_loop \<lparr>unread = bs @ t # rest, eof_flag = e\<rparr> r sh n = Undefined"
proof (induction bs arbitrary: r sh n)
  case Nil
  then show ?case by (simp add: varint_loop_over)
next
  case (Cons b bs)
  show ?case
  proof (cases "64 \<le> sh")
    case True
    then show ?thesis by (simp add: varint_loop_over)
  next
    case False
    then have sh: "sh < 64" by simp
    from Cons.prems have rest: "64 \<le> (sh + 7) + 7 * length bs" by simp
    from Cons.prems Cons.IH [OF _ rest] show ?thesis
      by (simp add: varint_loop_Cons [OF sh])
  qed
qed

lemma int_of_size_t_small:
  assumes "n < 2 ^ 31" shows "int_of_size_t n = int n"
proof -
  have "(word_of_nat n :: 32 word) = word_of_int (int n)" by simp
  then have "int_of_size_t n = signed_take_bit 31 (int n)"
    unfolding int_of_size_t_def by (simp only: sint_sbintrunc') simp
  also have "\<dots> = int n"
    using assms by (intro signed_take_bit_int_eq_self) auto
  finally show ?thesis .
qed

text \<open>
  Up to ten bytes \<open>PB_read_varint\<close> does what is asked of it: on a run \<open>bs\<close> of
  fewer than ten bytes with the high bit set, ended by a byte \<open>t\<close> with the high bit
  clear and followed by any bytes \<open>rest\<close>, it consumes exactly the run and \<open>t\<close>,
  returns their number and assigns the low 7 bits of each byte at successively higher
  positions; when the stream ends inside a run of at most ten bytes, it returns \<open>-1\<close>
  and assigns nothing.
\<close>

lemma PB_read_varint_up_to_10_bytes:
  assumes "\<forall>b\<in>set bs. b AND 0x80 \<noteq> 0" and "t AND 0x80 = 0" and "length bs < 10"
  shows "PB_read_varint \<lparr>unread = bs @ t # rest, eof_flag = e\<rparr>
           = Returns (int (length bs) + 1, \<lparr>unread = rest, eof_flag = e\<rparr>,
                      Some (varint_value (bs @ [t]) 0))
       \<and> PB_read_varint \<lparr>unread = bs, eof_flag = e\<rparr>
           = Returns (- 1, \<lparr>unread = [], eof_flag = True\<rparr>, None)"
proof -
  from assms(3) have a: "0 + 7 * length bs < 64" and b: "0 + 7 * length bs < 71" by simp_all
  from assms(3) have "length bs + 1 < 2 ^ 31" by simp
  from int_of_size_t_small [OF this]
  have cnt: "int_of_size_t (Suc (length bs)) = int (length bs) + 1" by simp
  have run: "PB_read_varint \<lparr>unread = bs @ t # rest, eof_flag = e\<rparr>
      = Returns (int (length bs) + 1, \<lparr>unread = rest, eof_flag = e\<rparr>,
                 Some (varint_value (bs @ [t]) 0))"
    unfolding PB_read_varint_def by (simp add: varint_loop_run [OF assms(1,2) a] cnt)
  have cut: "PB_read_varint \<lparr>unread = bs, eof_flag = e\<rparr>
      = Returns (- 1, \<lparr>unread = [], eof_flag = True\<rparr>, None)"
    unfolding PB_read_varint_def by (simp add: varint_loop_truncated [OF assms(1) b])
  from run cut show ?thesis by blast
qed

text \<open>
  C8. On every run of bytes with the high bit set, ended by a byte with the high bit
  clear, \<open>PB_read_varint\<close> is to consume the bytes of the varint, return their number
  and hold the low 7 bits of each byte at successively higher bit positions. The loop
  raises \<open>shift\<close> by 7 with every byte and never bounds it: on a varint of more than
  ten bytes the eleventh byte is shifted by 70 bits, which C leaves undefined, so the
  call has no defined result.
\<close>

theorem PB_read_varint_shift_overflow:
  assumes "\<forall>b\<in>set bs. b AND 0x80 \<noteq> 0" and "10 \<le> length bs"
  shows "PB_read_varint \<lparr>unread = bs @ t # rest, eof_flag = e\<rparr> = Undefined"
proof -
  from assms(2) have "64 \<le> 0 + 7 * length bs" by simp
  from varint_loop_long [OF assms(1) this] show ?thesis
    unfolding PB_read_varint_def by simp
qed

theorem PB_read_varint_shift_overflow_witness:
  "length long_varint = 11 \<and> last long_varint AND 0x80 = 0
   \<and> PB_read_varint \<lparr>unread = long_varint, eof_flag = False\<rparr> = Undefined"
proof -
  let ?bs = "[0x80, 0x80, 0x80, 0x80, 0x80, 0x80, 0x80, 0x80, 0x80, 0x80 :: byte]"
  have h1: "\<forall>b\<in>set ?bs. b AND 0x80 \<noteq> 0" by simp
  have h2: "10 \<le> length ?bs" by simp
  from PB_read_varint_shift_overflow [OF h1 h2, of 1 "[]" False]
  show ?thesis by (simp add: long_varint_def)
qed

subsection \<open>Evaluating the decoder\<close>

lemma size_t_of_int_nonneg:
  assumes "0 \<le> i" and "i < 2 ^ 64" shows "size_t_of_int i = nat i"
  using assms unfolding size_t_of_int_def
  by (simp add: unat_eq_nat_uint uint_word_of_int take_bit_eq_mod)

lemmas conv_simps = int_of_size_t_small size_t_of_int_nonneg

lemma size_t_of_int_minus1: "size_t_of_int (- 1) = 18446744073709551615"
  unfolding size_t_of_int_def by (simp add: unsigned_minus_1_eq_mask mask_eq_exp_minus_1)

lemma malloc_ok: "n \<le> avail \<Longrightarrow> malloc n avail = (True, avail - n)"
  by (simp add: malloc_def)

lemma malloc_fail: "avail < n \<Longrightarrow> malloc n avail = (False, avail)"
  by (simp add: malloc_def)

lemma read_value_varint:
  "PB_read_value s avail \<lparr>unread = bs, eof_flag = False\<rparr> VARINT_TYPE v =
     (case PB_read_varint \<lparr>unread = bs, eof_flag = False\<rparr> of
        Undefined \<Rightarrow> Undefined
      | Returns (r, inp', x) \<Rightarrow>
          Returns (int_of_size_t (size_t_of_int r), inp',
                   (case x of Some w \<Rightarrow> I64 w | None \<Rightarrow> v), avail))"
  by (simp add: PB_read_value_def feof_def)

lemma read_tag_run:
  "PB_read_varint \<lparr>unread = bs, eof_flag = False\<rparr> = Returns (int n, inp', Some tag) \<Longrightarrow>
   0 < n \<Longrightarrow> n < 2 ^ 31 \<Longrightarrow>
   PB_read_tag s \<lparr>unread = bs, eof_flag = False\<rparr> ty num =
     Returns (int n, inp', uint (tag AND 0x07), sint (ucast (drop_bit 3 tag) :: 32 word))"
  by (simp add: PB_read_tag_def feof_def Let_def conv_simps)

lemma read_field_tag:
  "PB_read_tag s \<lparr>unread = bs, eof_flag = False\<rparr> (ftype f) (number f)
     = Returns (tb, inp', ty, num) \<Longrightarrow>
   1 \<le> tb \<Longrightarrow>
   PB_read_field s avail \<lparr>unread = bs, eof_flag = False\<rparr> f =
     (case PB_read_value s avail inp' ty (fvalue f) of
        Undefined \<Rightarrow> Undefined
      | Returns (value_bytes, inp'', v, avail') \<Rightarrow>
          if value_bytes < 1
          then Returns (- 1, inp'', \<lparr>ftype = ty, number = num, fvalue = v\<rparr>, avail')
          else Returns
            (int_of_size_t ((size_t_of_int tb + size_t_of_int value_bytes) mod 2 ^ 64),
             inp'', \<lparr>ftype = ty, number = num, fvalue = v\<rparr>, avail'))"
  by (simp add: PB_read_field_def feof_def Let_def split: outcome.splits)

subsection \<open>Tags\<close>

text \<open>
  C7. The tag decoder is to fail with an invalid-wire-type error when the low 3 bits of
  the tag are not a legal wire type, the group types 3 and 4 among them. \<open>PB_read_tag\<close>
  splits the varint into the low 3 bits and the rest and returns the number of bytes read
  whatever the wire type is: on the tag bytes \<open>0E\<close> (field 1, wire type 6) and \<open>0C\<close>
  (field 1, wire type 4) it returns 1. The comment of \<open>PB_read_tag\<close> in the source
  promises an error outside the range 0 to 5.
\<close>

theorem PB_read_tag_accepts_any_type:
  "PB_read_tag example_sys \<lparr>unread = [0x0E, 0x01], eof_flag = False\<rparr> ty num
     = Returns (1, \<lparr>unread = [0x01], eof_flag = False\<rparr>, 6, 1)
   \<and> PB_read_tag example_sys \<lparr>unread = [0x0C, 0x01], eof_flag = False\<rparr> ty num
     = Returns (1, \<lparr>unread = [0x01], eof_flag = False\<rparr>, EGROUP_TYPE, 1)"
proof -
  have a: "PB_read_varint \<lparr>unread = [0x0E, 0x01], eof_flag = False\<rparr>
      = Returns (int 1, \<lparr>unread = [0x01], eof_flag = False\<rparr>, Some 0x0E)"
    by (simp add: PB_read_varint_def varint_loop_Cons conv_simps)
  have b: "PB_read_varint \<lparr>unread = [0x0C, 0x01], eof_flag = False\<rparr>
      = Returns (int 1, \<lparr>unread = [0x01], eof_flag = False\<rparr>, Some 0x0C)"
    by (simp add: PB_read_varint_def varint_loop_Cons conv_simps)
  from read_tag_run [OF a] read_tag_run [OF b] show ?thesis
    by (simp add: EGROUP_TYPE_def)
qed

text \<open>
  A wire type other than the four that \<open>PB_read_value\<close> has a case for is turned
  down there, by the default branch, after the tag has been accepted.
\<close>

lemma PB_read_value_other_type:
  assumes "\<not> feof inp" and "type \<noteq> VARINT_TYPE" and "type \<noteq> I64_TYPE"
    and "type \<noteq> LEN_TYPE" and "type \<noteq> I32_TYPE"
  shows "PB_read_value s avail inp type v = Returns (- 1, inp, v, avail)"
  using assms by (simp add: PB_read_value_def)

subsection \<open>Messages\<close>

lemma read_field_overrun:
  "PB_read_field example_sys avail overrun_stream f =
     Returns (2, \<lparr>unread = [0xFF], eof_flag = False\<rparr>,
              \<lparr>ftype = VARINT_TYPE, number = 1, fvalue = I64 1\<rparr>, avail)"
proof -
  have a: "PB_read_varint \<lparr>unread = [0x08, 0x01, 0xFF], eof_flag = False\<rparr>
      = Returns (int 1, \<lparr>unread = [0x01, 0xFF], eof_flag = False\<rparr>, Some 0x08)"
    by (simp add: PB_read_varint_def varint_loop_Cons conv_simps)
  have t: "PB_read_tag example_sys \<lparr>unread = [0x08, 0x01, 0xFF], eof_flag = False\<rparr>
        (ftype f) (number f)
      = Returns (1, \<lparr>unread = [0x01, 0xFF], eof_flag = False\<rparr>, VARINT_TYPE, 1)"
    using read_tag_run [OF a] by (simp add: VARINT_TYPE_def)
  have v: "PB_read_value example_sys avail \<lparr>unread = [0x01, 0xFF], eof_flag = False\<rparr>
        VARINT_TYPE (fvalue f)
      = Returns (1, \<lparr>unread = [0xFF], eof_flag = False\<rparr>, I64 1, avail)"
    by (simp add: read_value_varint PB_read_varint_def varint_loop_Cons conv_simps)
  show ?thesis
    unfolding overrun_stream_def using read_field_tag [OF t] by (simp add: v conv_simps)
qed

text \<open>
  C6. When \<open>PB_read_message\<close> succeeds it is to have consumed exactly \<open>len\<close> bytes.
  The loop runs while \<open>bytes_read < len\<close> and no test follows it: with \<open>len = 1\<close> and
  a first field of two bytes the function returns 1, assigns the message and has
  consumed two bytes.
\<close>

theorem PB_read_message_overrun:
  "PB_read_message example_sys example_heap overrun_stream 1 None =
     Returns (1, \<lparr>unread = [0xFF], eof_flag = False\<rparr>,
              Some [\<lparr>ftype = VARINT_TYPE, number = 1, fvalue = I64 1\<rparr>], example_heap - 80)
   \<and> length (unread overrun_stream) - length [0xFF :: byte] = 2"
proof -
  have sz: "sizeof_PB_Field example_sys = 40" by (simp add: example_sys_def)
  have m1: "malloc 40 example_heap = (True, example_heap - 40)"
    by (rule malloc_ok) (simp add: example_heap_def)
  have m2: "malloc 40 (example_heap - 40) = (True, example_heap - 80)"
    by (simp add: malloc_def example_heap_def)
  have "PB_read_message_loop example_sys (example_heap - 40) overrun_stream 1 [] 0 =
        PB_read_message_loop example_sys (example_heap - 80)
          \<lparr>unread = [0xFF], eof_flag = False\<rparr> 1
          [\<lparr>ftype = VARINT_TYPE, number = 1, fvalue = I64 1\<rparr>] (Suc (Suc 0))"
    by (subst PB_read_message_loop.simps) (simp add: sz m2 read_field_overrun conv_simps)
  also have "\<dots> = Returns (\<lparr>unread = [0xFF], eof_flag = False\<rparr>,
                      Some [\<lparr>ftype = VARINT_TYPE, number = 1, fvalue = I64 1\<rparr>],
                      example_heap - 80)"
    by (subst PB_read_message_loop.simps) simp
  finally have "PB_read_message example_sys example_heap overrun_stream 1 None =
     Returns (1, \<lparr>unread = [0xFF], eof_flag = False\<rparr>,
              Some [\<lparr>ftype = VARINT_TYPE, number = 1, fvalue = I64 1\<rparr>], example_heap - 80)"
    by (simp add: PB_read_message_def sz m1 feof_def overrun_stream_def)
  then show ?thesis by (simp add: overrun_stream_def)
qed

lemma read_field_huge:
  assumes "avail < 2 ^ 62"
  shows "PB_read_field example_sys avail huge_len_stream f = Undefined"
proof -
  have a: "PB_read_varint
        \<lparr>unread = [0x0A, 0x80, 0x80, 0x80, 0x80, 0x80, 0x80, 0x80, 0x80, 0x40, 0x00],
         eof_flag = False\<rparr>
      = Returns (int 1,
          \<lparr>unread = [0x80, 0x80, 0x80, 0x80, 0x80, 0x80, 0x80, 0x80, 0x40, 0x00],
           eof_flag = False\<rparr>, Some 0x0A)"
    by (simp add: PB_read_varint_def varint_loop_Cons conv_simps)
  have t: "PB_read_tag example_sys
        \<lparr>unread = [0x0A, 0x80, 0x80, 0x80, 0x80, 0x80, 0x80, 0x80, 0x80, 0x40, 0x00],
         eof_flag = False\<rparr>
        (ftype f) (number f)
      = Returns (1,
          \<lparr>unread = [0x80, 0x80, 0x80, 0x80, 0x80, 0x80, 0x80, 0x80, 0x40, 0x00],
           eof_flag = False\<rparr>, LEN_TYPE, 1)"
    using read_tag_run [OF a] by (simp add: LEN_TYPE_def)
  have sz: "PB_read_varint
        \<lparr>unread = [0x80, 0x80, 0x80, 0x80, 0x80, 0x80, 0x80, 0x80, 0x40, 0x00],
         eof_flag = False\<rparr>
      = Returns (9, \<lparr>unread = [0x00], eof_flag = False\<rparr>, Some 0x4000000000000000)"
    by (simp add: PB_read_varint_def varint_loop_Cons conv_simps)
  have m: "malloc 4611686018427387904 avail = (False, avail)"
    using assms by (simp add: malloc_def)
  have v: "PB_read_value example_sys avail
        \<lparr>unread = [0x80, 0x80, 0x80, 0x80, 0x80, 0x80, 0x80, 0x80, 0x40, 0x00],
         eof_flag = False\<rparr>
        LEN_TYPE (fvalue f) = Undefined"
    by (simp add: PB_read_value_def feof_def sz Let_def m
          LEN_TYPE_def VARINT_TYPE_def I64_TYPE_def)
  show ?thesis
    unfolding huge_len_stream_def using read_field_tag [OF t] by (simp add: v)
qed

text \<open>
  C9. Every decode failure inside \<open>PB_read_message\<close>, an allocation failure among
  them, is to end the call with an error result. \<open>PB_read_value\<close> does not test the
  buffer it allocates for a length-delimited value: on a field that declares \<open>2 ^ 62\<close>
  bytes no buffer is allocated and \<open>fread\<close> is handed \<open>NULL\<close>, so the call of
  \<open>PB_read_message\<close> does not return an error result: its behaviour is undefined.
\<close>

theorem PB_read_message_unchecked_malloc:
  "\<not> fst (malloc (2 ^ 62) example_heap)
   \<and> PB_read_message example_sys example_heap huge_len_stream 11 msgp = Undefined"
proof -
  have sz: "sizeof_PB_Field example_sys = 40" by (simp add: example_sys_def)
  have m1: "malloc 40 example_heap = (True, example_heap - 40)"
    by (rule malloc_ok) (simp add: example_heap_def)
  have m2: "malloc 40 (example_heap - 40) = (True, example_heap - 80)"
    by (simp add: malloc_def example_heap_def)
  have small: "example_heap - 80 < 2 ^ 62" by (simp add: example_heap_def)
  have "PB_read_message_loop example_sys (example_heap - 40) huge_len_stream 11 [] 0 = Undefined"
    by (subst PB_read_message_loop.simps) (simp add: sz m2 read_field_huge [OF small])
  then have "PB_read_message example_sys example_heap huge_len_stream 11 msgp = Undefined"
    by (simp add: PB_read_message_def sz m1 feof_def huge_len_stream_def)
  moreover have "\<not> fst (malloc (2 ^ 62) example_heap)"
    by (simp add: malloc_def example_heap_def)
  ultimately show ?thesis by simp
qed

text \<open>
  Where \<open>PB_read_message\<close> does return, the result is \<open>1\<close>, \<open>0\<close> or \<open>-1\<close> and the
  caller's variable is assigned only with the result \<open>1\<close>.
\<close>

lemma PB_read_message_returns:
  assumes "PB_read_message s avail inp len msgp = Returns (r, inp', msgp', avail')"
  shows "(r = 1 \<or> r = 0 \<or> r = - 1) \<and> (r \<noteq> 1 \<longrightarrow> msgp' = msgp)"
  using assms unfolding PB_read_message_def
  by (auto split: if_splits outcome.splits option.splits prod.splits)

subsection \<open>Compressed blobs\<close>

lemma read_message_two_bytes:
  assumes "80 \<le> avail"
  shows "PB_read_message example_sys avail \<lparr>unread = [0x08, 0x01], eof_flag = False\<rparr> 2 msgp =
     Returns (1, \<lparr>unread = [], eof_flag = False\<rparr>,
              Some [\<lparr>ftype = VARINT_TYPE, number = 1, fvalue = I64 1\<rparr>], avail - 80)"
proof -
  have sz: "sizeof_PB_Field example_sys = 40" by (simp add: example_sys_def)
  have m1: "malloc 40 avail = (True, avail - 40)"
    using assms by (simp add: malloc_def)
  have m2: "malloc 40 (avail - 40) = (True, avail - 80)"
    using assms by (simp add: malloc_def)
  have a: "PB_read_varint \<lparr>unread = [0x08, 0x01], eof_flag = False\<rparr>
      = Returns (int 1, \<lparr>unread = [0x01], eof_flag = False\<rparr>, Some 0x08)"
    by (simp add: PB_read_varint_def varint_loop_Cons conv_simps)
  have t: "PB_read_tag example_sys \<lparr>unread = [0x08, 0x01], eof_flag = False\<rparr>
        (ftype (fresh_field example_sys)) (number (fresh_field example_sys))
      = Returns (1, \<lparr>unread = [0x01], eof_flag = False\<rparr>, VARINT_TYPE, 1)"
    using read_tag_run [OF a] by (simp add: VARINT_TYPE_def)
  have v: "PB_read_value example_sys (avail - 80) \<lparr>unread = [0x01], eof_flag = False\<rparr>
        VARINT_TYPE (fvalue (fresh_field example_sys))
      = Returns (1, \<lparr>unread = [], eof_flag = False\<rparr>, I64 1, avail - 80)"
    by (simp add: read_value_varint PB_read_varint_def varint_loop_Cons conv_simps)
  have f: "PB_read_field example_sys (avail - 80) \<lparr>unread = [0x08, 0x01], eof_flag = False\<rparr>
        (fresh_field example_sys)
      = Returns (2, \<lparr>unread = [], eof_flag = False\<rparr>,
                 \<lparr>ftype = VARINT_TYPE, number = 1, fvalue = I64 1\<rparr>, avail - 80)"
    using read_field_tag [OF t] by (simp add: v conv_simps)
  have "PB_read_message_loop example_sys (avail - 40)
          \<lparr>unread = [0x08, 0x01], eof_flag = False\<rparr> 2 [] 0 =
        PB_read_message_loop example_sys (avail - 80) \<lparr>unread = [], eof_flag = False\<rparr> 2
          [\<lparr>ftype = VARINT_TYPE, number = 1, fvalue = I64 1\<rparr>] (Suc (Suc 0))"
    by (subst PB_read_message_loop.simps) (simp add: sz m2 f conv_simps)
  also have "\<dots> = Returns (\<lparr>unread = [], eof_flag = False\<rparr>,
                      Some [\<lparr>ftype = VARINT_TYPE, number = 1, fvalue = I64 1\<rparr>], avail - 80)"
    by (subst PB_read_message_loop.simps) simp
  finally show ?thesis
    by (simp add: PB_read_message_def sz m1 feof_def)
qed

text \<open>
  C5. The compressed-blob decoder is to fail with a size-mismatch error, decoding
  nothing, when the inflated length differs from the uncompressed length declared in the
  Blob. \<open>PB_inflate_embedded_message\<close> is given no declared length: for the Blob that
  declares 5 bytes and whose data inflates to 2 bytes, the call on the data returns 1
  and assigns the decoded message.
\<close>

theorem PB_inflate_size_unchecked:
  "fvalue (example_blob ! 0) = I64 5
   \<and> fvalue (example_blob ! 1) = Bytes example_zdata
   \<and> length (written (example_inflate example_zdata)) = 2
   \<and> PB_inflate_embedded_message example_sys example_heap example_inflate
        (Some example_zdata) (length example_zdata) None
      = Returns (1, Some [\<lparr>ftype = VARINT_TYPE, number = 1, fvalue = I64 1\<rparr>],
                 example_heap - 80)"
proof -
  have ok: "fmemopen_ok example_sys" "open_memstream_ok example_sys"
    by (simp_all add: example_sys_def)
  have big: "80 \<le> example_heap" by (simp add: example_heap_def)
  have w: "written (example_inflate example_zdata) = [0x08, 0x01]"
    by (simp add: example_inflate_def written_def)
  have e: "PB_read_embedded_message example_sys example_heap (Some [0x08, 0x01]) 2 None
      = Returns (1, Some [\<lparr>ftype = VARINT_TYPE, number = 1, fvalue = I64 1\<rparr>],
                 example_heap - 80)"
    by (simp add: PB_read_embedded_message_def fmemopen_def read_message_two_bytes [OF big] ok)
  have l: "0 < length example_zdata" by (simp add: example_zdata_def)
  have "PB_inflate_embedded_message example_sys example_heap example_inflate
        (Some example_zdata) (length example_zdata) None
      = PB_read_embedded_message example_sys example_heap (Some [0x08, 0x01]) 2 None"
    using l
    by (simp add: PB_inflate_embedded_message_def fmemopen_def w Let_def ok numeral_2_eq_2)
  with e w show ?thesis by (simp add: example_blob_def)
qed

text \<open>
  The return value of \<open>zlib_inflate\<close> is dropped as well: when the inflater reports an
  error and has written nothing, the function returns 0.
\<close>

lemma PB_inflate_error_dropped:
  "example_inflate [0x00] = Inflate_error []
   \<and> PB_inflate_embedded_message example_sys avail example_inflate (Some [0x00]) 1 msgp
      = Returns (0, msgp, avail)"
  by (simp add: PB_inflate_embedded_message_def fmemopen_def example_inflate_def written_def
        Let_def example_sys_def example_zdata_def PB_read_embedded_message_def)

text \<open>
  C5, as the code has it: the function takes the compressed buffer and its length and
  compares no sizes. When inflation succeeds, the call is the decoding of the inflated
  bytes, all of them and whatever their number, as an embedded message with the byte
  budget set to their number; an empty output returns 0 without decoding. A \<open>NULL\<close>
  buffer returns \<open>-1\<close> and a length of 0 returns 0 before anything is inflated.
\<close>

theorem PB_inflate_hands_over:
  assumes "zlib_inflate (take len b) = Inflate_ok out"
    and "0 < len" and "fmemopen_ok s" and "open_memstream_ok s"
  shows "PB_inflate_embedded_message s avail zlib_inflate (Some b) len msgp =
           (if out = [] then Returns (0, msgp, avail)
            else case PB_read_message s avail \<lparr>unread = out, eof_flag = False\<rparr>
                        (length out) msgp of
                   Undefined \<Rightarrow> Undefined
                 | Returns (result, inp', msgp', avail') \<Rightarrow> Returns (result, msgp', avail'))
       \<and> PB_inflate_embedded_message s avail zlib_inflate None len msgp
           = Returns (- 1, msgp, avail)
       \<and> PB_inflate_embedded_message s avail zlib_inflate (Some b) 0 msgp
           = Returns (0, msgp, avail)"
  using assms
  by (simp add: PB_inflate_embedded_message_def PB_read_embedded_message_def fmemopen_def
        written_def Let_def)

theorem PB_inflate_hands_over_witness:
  "example_inflate (take 13 example_zdata) = Inflate_ok [0x08, 0x01]
   \<and> PB_inflate_embedded_message example_sys example_heap example_inflate
        (Some example_zdata) 13 None
      = Returns (1, Some [\<lparr>ftype = VARINT_TYPE, number = 1, fvalue = I64 1\<rparr>],
                 example_heap - 80)"
proof -
  have a: "example_inflate (take 13 example_zdata) = Inflate_ok [0x08, 0x01]"
    by (simp add: example_inflate_def example_zdata_def)
  have b: "(0::nat) < 13" by simp
  have c: "fmemopen_ok example_sys" and d: "open_memstream_ok example_sys"
    by (simp_all add: example_sys_def)
  have big: "80 \<le> example_heap" by (simp add: example_heap_def)
  have l: "length [0x08 :: byte, 0x01] = 2" by simp
  from PB_inflate_hands_over [where zlib_inflate = example_inflate and len = 13
      and b = example_zdata and out = "[0x08, 0x01]" and s = example_sys and msgp = None
      and avail = example_heap, OF a b c d, THEN conjunct1] a
  show ?thesis by (simp only: l read_message_two_bytes [OF big]) simp
qed

subsection \<open>Lookup\<close>

lemma next_field_loop_Node:
  "i < length msg \<Longrightarrow>
   PB_next_field_loop h msg (Node i) fnum type dir =
     (if ftype (msg ! i) = SENTINEL_TYPE h then None
      else if fnum = ANY_FIELD h \<or> number (msg ! i) = fnum then
        (if type = ANY_TYPE h \<or> ftype (msg ! i) = type then Some (Node i) else None)
      else PB_next_field_loop h msg
             (if dir = FORWARD_DIR then next_ptr msg (Node i) else prev_ptr msg (Node i))
             fnum type dir)"
  by (subst PB_next_field_loop.simps) (simp add: deref_def)

lemma next_field_loop_Head: "PB_next_field_loop h msg Head fnum type dir = None"
  by (subst PB_next_field_loop.simps) (simp add: deref_def)

lemma backward_skip:
  assumes "fnum \<noteq> ANY_FIELD h"
  shows "j \<le> k \<Longrightarrow> k < length msg \<Longrightarrow>
   (\<forall>i. j < i \<and> i \<le> k \<longrightarrow> number (msg ! i) \<noteq> fnum \<and> ftype (msg ! i) \<noteq> SENTINEL_TYPE h) \<Longrightarrow>
   PB_next_field_loop h msg (Node k) fnum type BACKWARD_DIR =
   PB_next_field_loop h msg (Node j) fnum type BACKWARD_DIR"
proof (induction k)
  case 0
  then show ?case by simp
next
  case (Suc k)
  show ?case
  proof (cases "j = Suc k")
    case True
    then show ?thesis by simp
  next
    case False
    with Suc.prems have jk: "j \<le> k" and kl: "k < length msg" by simp_all
    from Suc.prems False have here:
      "number (msg ! Suc k) \<noteq> fnum" "ftype (msg ! Suc k) \<noteq> SENTINEL_TYPE h" by auto
    from Suc.prems have rest:
      "\<forall>i. j < i \<and> i \<le> k \<longrightarrow> number (msg ! i) \<noteq> fnum \<and> ftype (msg ! i) \<noteq> SENTINEL_TYPE h"
      by auto
    have "PB_next_field_loop h msg (Node (Suc k)) fnum type BACKWARD_DIR =
          PB_next_field_loop h msg (Node k) fnum type BACKWARD_DIR"
      using Suc.prems(2) here assms
      by (subst next_field_loop_Node) (simp_all add: prev_ptr_def)
    with Suc.IH [OF jk kl rest] show ?thesis by simp
  qed
qed

text \<open>
  C4. \<open>PB_get_field\<close> returns the last field with number \<open>fnum\<close>: when \<open>j\<close> is the
  position of the last field with that number, the result is that field if its wire type
  is the one asked for (or \<open>ANY_TYPE\<close> was asked for), and \<open>NULL\<close> otherwise, whatever
  the earlier fields with the same number are. \<open>fnum\<close> is a field number, not the
  wildcard \<open>ANY_FIELD\<close>, and of the nodes of the list only the sentinel has the type
  \<open>SENTINEL_TYPE\<close>.
\<close>

theorem PB_get_field_last_wins:
  assumes "\<forall>f \<in> set msg. ftype f \<noteq> SENTINEL_TYPE h"
    and "fnum \<noteq> ANY_FIELD h"
    and "j < length msg" and "number (msg ! j) = fnum"
    and "\<forall>k. j < k \<and> k < length msg \<longrightarrow> number (msg ! k) \<noteq> fnum"
  shows "PB_get_field h msg fnum type =
           (if type = ANY_TYPE h \<or> ftype (msg ! j) = type then Some (Node j) else None)"
proof -
  from assms(3) have ne: "msg \<noteq> []" by auto
  let ?k = "length msg - 1"
  from ne assms(3) have jk: "j \<le> ?k" and kl: "?k < length msg" by auto
  have sk: "\<forall>i. j < i \<and> i \<le> ?k \<longrightarrow> number (msg ! i) \<noteq> fnum \<and> ftype (msg ! i) \<noteq> SENTINEL_TYPE h"
    using assms(1,5) kl by (auto simp: all_set_conv_all_nth)
  have "PB_get_field h msg fnum type = PB_next_field_loop h msg (Node ?k) fnum type BACKWARD_DIR"
    using ne by (simp add: PB_get_field_def PB_next_field_def prev_ptr_def)
  also have "\<dots> = PB_next_field_loop h msg (Node j) fnum type BACKWARD_DIR"
    by (rule backward_skip [OF assms(2) jk kl sk])
  also have "\<dots> = (if type = ANY_TYPE h \<or> ftype (msg ! j) = type then Some (Node j) else None)"
    using assms(1,3,4) by (subst next_field_loop_Node) (auto simp: all_set_conv_all_nth)
  finally show ?thesis .
qed

theorem PB_get_field_last_wins_witness:
  "number (lookup_msg ! 0) = 1 \<and> ftype (lookup_msg ! 0) = VARINT_TYPE
   \<and> number (lookup_msg ! 1) = 1 \<and> ftype (lookup_msg ! 1) = LEN_TYPE
   \<and> PB_get_field example_hdr lookup_msg 1 LEN_TYPE = Some (Node 1)
   \<and> PB_get_field example_hdr lookup_msg 1 VARINT_TYPE = None"
proof -
  have h1: "\<forall>f \<in> set lookup_msg. ftype f \<noteq> SENTINEL_TYPE example_hdr"
    by (simp add: lookup_msg_def example_hdr_def VARINT_TYPE_def LEN_TYPE_def)
  have h2: "1 \<noteq> ANY_FIELD example_hdr" by (simp add: example_hdr_def)
  have h3: "1 < length lookup_msg" by (simp add: lookup_msg_def)
  have h4: "number (lookup_msg ! 1) = 1" by (simp add: lookup_msg_def)
  have h5: "\<forall>k. 1 < k \<and> k < length lookup_msg \<longrightarrow> number (lookup_msg ! k) \<noteq> 1"
  proof (intro allI impI)
    fix k assume "1 < k \<and> k < length lookup_msg"
    then have "k = 2" by (simp add: lookup_msg_def)
    then show "number (lookup_msg ! k) \<noteq> 1" by (simp add: lookup_msg_def)
  qed
  from PB_get_field_last_wins [OF h1 h2 h3 h4 h5, of LEN_TYPE]
    PB_get_field_last_wins [OF h1 h2 h3 h4 h5, of VARINT_TYPE]
  show ?thesis
    by (simp add: lookup_msg_def example_hdr_def VARINT_TYPE_def LEN_TYPE_def)
qed

subsection \<open>Expansion of packed fields\<close>

lemma expand_outer_stuck:
  assumes "deref msg cur = Some f" and "ftype f \<noteq> SENTINEL_TYPE h" and "number f \<noteq> fnum"
  shows "expand_outer h s avail msg cur fnum type = None"
proof (rule ccontr)
  assume "expand_outer h s avail msg cur fnum type \<noteq> None"
  then obtain y where y: "expand_outer h s avail msg cur fnum type = Some y" by auto
  have "\<not> (\<exists>f. deref msg cur = Some f \<and> ftype f \<noteq> SENTINEL_TYPE h \<and> number f \<noteq> fnum)"
  proof (rule expand_outer.raw_induct
      [where P = "\<lambda>h s avail msg cur fnum type y.
         \<not> (\<exists>f. deref msg cur = Some f \<and> ftype f \<noteq> SENTINEL_TYPE h \<and> number f \<noteq> fnum)",
       OF _ y])
    fix expand_outer' :: "pb_hdr \<Rightarrow> sys \<Rightarrow> nat \<Rightarrow> PB_Message \<Rightarrow> field_ptr \<Rightarrow> int \<Rightarrow> int
        \<Rightarrow> (int \<times> PB_Message \<times> nat) outcome option"
      and h s avail msg cur fnum type and y :: "(int \<times> PB_Message \<times> nat) outcome"
    assume IH: "\<And>h s avail msg cur fnum type y.
        expand_outer' h s avail msg cur fnum type = Some y \<Longrightarrow>
        \<not> (\<exists>f. deref msg cur = Some f \<and> ftype f \<noteq> SENTINEL_TYPE h \<and> number f \<noteq> fnum)"
    assume step: "(case deref msg cur of
        None \<Rightarrow> Some (Returns (1, msg, avail))
      | Some f \<Rightarrow>
          if ftype f = SENTINEL_TYPE h then Some (Returns (1, msg, avail))
          else if number f = fnum then
            (if ftype f = LEN_TYPE then
               (case fvalue f of
                  Bytes buf \<Rightarrow>
                    if \<not> fmemopen_ok s then Some (Returns (- 1, msg, avail))
                    else
                      Option.bind
                        (expand_inner s avail (fmemopen buf (length buf)) (length buf)
                           fnum type msg)
                        (\<lambda>r. case r of
                               Undefined \<Rightarrow> Some Undefined
                             | Returns (Some e, msg', avail') \<Rightarrow> Some (Returns (e, msg', avail'))
                             | Returns (None, msg', avail') \<Rightarrow>
                                 expand_outer' h s avail' msg' (next_ptr msg' cur) fnum type)
                | _ \<Rightarrow> Some Undefined)
             else expand_outer' h s avail msg (next_ptr msg cur) fnum type)
          else expand_outer' h s avail msg cur fnum type) = Some y"
    show "\<not> (\<exists>f. deref msg cur = Some f \<and> ftype f \<noteq> SENTINEL_TYPE h \<and> number f \<noteq> fnum)"
    proof
      assume "\<exists>f. deref msg cur = Some f \<and> ftype f \<noteq> SENTINEL_TYPE h \<and> number f \<noteq> fnum"
      then obtain f where f: "deref msg cur = Some f" "ftype f \<noteq> SENTINEL_TYPE h"
          "number f \<noteq> fnum"
        by auto
      with step have "expand_outer' h s avail msg cur fnum type = Some y" by simp
      from IH [OF this] f show False by auto
    qed
  qed
  with assms show False by auto
qed

text \<open>
  C1. \<open>PB_expand_packed_fields\<close> is to run to completion or failure on every
  message. The loop moves to the next field only inside the branch for fields with
  number \<open>fnum\<close>: a message whose first field has another number (and is not of the
  sentinel's type) keeps the loop at that field for ever. The call has no result.
\<close>

theorem PB_expand_packed_fields_diverges:
  assumes "msg \<noteq> []" and "ftype (hd msg) \<noteq> SENTINEL_TYPE h" and "number (hd msg) \<noteq> fnum"
  shows "PB_expand_packed_fields h s avail msg fnum type = None"
proof -
  from assms(1) have "deref msg (next_ptr msg Head) = Some (hd msg)"
    by (cases msg) (simp_all add: deref_def next_ptr_def)
  from expand_outer_stuck [OF this assms(2,3)] show ?thesis
    by (simp add: PB_expand_packed_fields_def)
qed

theorem PB_expand_packed_fields_diverges_witness:
  "other_number_msg \<noteq> [] \<and> number (hd other_number_msg) = 2
   \<and> PB_expand_packed_fields example_hdr example_sys example_heap other_number_msg 1
        VARINT_TYPE = None"
proof -
  have h1: "other_number_msg \<noteq> []" by (simp add: other_number_msg_def)
  have h2: "ftype (hd other_number_msg) \<noteq> SENTINEL_TYPE example_hdr"
    by (simp add: other_number_msg_def example_hdr_def VARINT_TYPE_def)
  have h3: "number (hd other_number_msg) \<noteq> 1" by (simp add: other_number_msg_def)
  from PB_expand_packed_fields_diverges [OF h1 h2 h3, of example_sys example_heap VARINT_TYPE] h1
  show ?thesis by (simp add: other_number_msg_def)
qed

text \<open>
  The inner loop takes one \<open>PB_Field\<close> from the heap in each round, so it ends on every
  stream: at the latest when \<open>malloc\<close> fails.
\<close>

lemma PB_read_value_heap:
  "PB_read_value s avail inp type v = Returns (r, inp', v', avail') \<Longrightarrow> avail' \<le> avail"
  unfolding PB_read_value_def malloc_def Let_def
  by (auto split: if_splits outcome.splits prod.splits option.splits)

lemma expand_inner_returns:
  assumes "0 < sizeof_PB_Field s"
  shows "\<exists>y. expand_inner s avail stream sz fnum type msg = Some y"
proof (induction avail arbitrary: stream sz msg rule: less_induct)
  case (less avail)
  show ?case
  proof (cases "0 < sz")
    case False
    then show ?thesis by (subst expand_inner.simps) simp
  next
    case sz: True
    show ?thesis
    proof (cases "sizeof_PB_Field s \<le> avail")
      case False
      with sz show ?thesis by (subst expand_inner.simps) (simp add: malloc_def)
    next
      case True
      then have m: "malloc (sizeof_PB_Field s) avail = (True, avail - sizeof_PB_Field s)"
        by (simp add: malloc_def)
      show ?thesis
      proof (cases "PB_read_value s (avail - sizeof_PB_Field s) stream type Uninit")
        case Undefined
        with sz m show ?thesis by (subst expand_inner.simps) simp
      next
        case (Returns t)
        obtain r stream' v avail2 where t: "t = (r, stream', v, avail2)" by (cases t)
        from PB_read_value_heap [OF Returns [unfolded t]] True assms
        have "avail2 < avail" by simp
        from less.IH [OF this] sz m Returns t show ?thesis
          by (subst expand_inner.simps) simp
      qed
    qed
  qed
qed

text \<open>
  A packed field cut inside a varint: the first read returns \<open>-1\<close>, which the
  \<open>size_t\<close> subtraction turns into \<open>size + 1\<close>, and every later read returns 0 at
  end of file. The loop links one field per round until \<open>malloc\<close> fails, and the
  function returns \<open>-1\<close>. Here the heap holds two fields and a half.
\<close>

lemma expand_inner_cut_run:
  "expand_inner example_sys 100 (fmemopen [0x80] 1) 1 7 VARINT_TYPE [] =
     Some (Returns (Some (- 1),
       [\<lparr>ftype = VARINT_TYPE, number = 7, fvalue = Uninit\<rparr>,
        \<lparr>ftype = VARINT_TYPE, number = 7, fvalue = Uninit\<rparr>], 20))"
proof -
  have sz: "sizeof_PB_Field example_sys = 40" by (simp add: example_sys_def)
  have m1: "malloc 40 100 = (True, 60)" and m2: "malloc 40 60 = (True, 20)"
    and m3: "malloc 40 20 = (False, 20)"
    by (simp_all add: malloc_def)
  have v1: "PB_read_value example_sys 60 \<lparr>unread = [0x80], eof_flag = False\<rparr> VARINT_TYPE Uninit
      = Returns (- 1, \<lparr>unread = [], eof_flag = True\<rparr>, Uninit, 60)"
    by (simp add: read_value_varint PB_read_varint_def varint_loop_Cons varint_loop_Nil
          int_of_size_t_max)
  have v2: "PB_read_value example_sys 20 \<lparr>unread = [], eof_flag = True\<rparr> VARINT_TYPE Uninit
      = Returns (0, \<lparr>unread = [], eof_flag = True\<rparr>, Uninit, 20)"
    by (simp add: PB_read_value_def feof_def)
  have z: "size_t_of_int 0 = 0" by (simp add: size_t_of_int_def)
  show ?thesis
    apply (simp add: fmemopen_def)
    apply (subst expand_inner.simps, simp add: sz m1 v1 size_t_of_int_minus1)
    apply (subst expand_inner.simps, simp add: sz m2 v2 z)
    apply (subst expand_inner.simps, simp add: sz m3)
    done
qed

lemma inner_run:
  assumes "120 \<le> avail"
  shows "expand_inner example_sys avail (fmemopen packed_bytes (length packed_bytes))
           (length packed_bytes) 1 VARINT_TYPE msg
         = Some (Returns (None, msg @ expanded_fields, avail - 120))"
proof -
  have sz: "sizeof_PB_Field example_sys = 40" by (simp add: example_sys_def)
  have m1: "malloc 40 avail = (True, avail - 40)"
    and m2: "malloc 40 (avail - 40) = (True, avail - 80)"
    and m3: "malloc 40 (avail - 80) = (True, avail - 120)"
    using assms by (simp_all add: malloc_def)
  have v1: "PB_read_value example_sys a
      \<lparr>unread = [0x01, 0xAC, 0x02, 0xFF, 0xFF, 0x03], eof_flag = False\<rparr> VARINT_TYPE Uninit
      = Returns (1, \<lparr>unread = [0xAC, 0x02, 0xFF, 0xFF, 0x03], eof_flag = False\<rparr>, I64 1, a)"
    for a
    by (simp add: read_value_varint PB_read_varint_def varint_loop_Cons conv_simps)
  have v2: "PB_read_value example_sys a
      \<lparr>unread = [0xAC, 0x02, 0xFF, 0xFF, 0x03], eof_flag = False\<rparr> VARINT_TYPE Uninit
      = Returns (2, \<lparr>unread = [0xFF, 0xFF, 0x03], eof_flag = False\<rparr>, I64 300, a)" for a
    by (simp add: read_value_varint PB_read_varint_def varint_loop_Cons conv_simps)
  have v3: "PB_read_value example_sys a \<lparr>unread = [0xFF, 0xFF, 0x03], eof_flag = False\<rparr>
      VARINT_TYPE Uninit
      = Returns (3, \<lparr>unread = [], eof_flag = False\<rparr>, I64 65535, a)" for a
    by (simp add: read_value_varint PB_read_varint_def varint_loop_Cons conv_simps)
  show ?thesis
    apply (simp add: fmemopen_def packed_bytes_def expanded_fields_def)
    apply (subst expand_inner.simps, simp add: sz m1 v1 conv_simps)
    apply (subst expand_inner.simps, simp add: sz m2 v2 conv_simps)
    apply (subst expand_inner.simps, simp add: sz m3 v3 conv_simps)
    apply (subst expand_inner.simps, simp)
    done
qed

lemma expand_outer_end:
  "deref msg cur = None \<Longrightarrow>
   expand_outer h s avail msg cur fnum type = Some (Returns (1, msg, avail))"
  by (subst expand_outer.simps) simp

lemma expand_outer_skip:
  "deref msg cur = Some f \<Longrightarrow> ftype f \<noteq> SENTINEL_TYPE h \<Longrightarrow> number f = fnum \<Longrightarrow>
   ftype f \<noteq> LEN_TYPE \<Longrightarrow>
   expand_outer h s avail msg cur fnum type
     = expand_outer h s avail msg (next_ptr msg cur) fnum type"
  by (subst expand_outer.simps) simp

lemma expand_outer_packed:
  "deref msg cur = Some f \<Longrightarrow> ftype f \<noteq> SENTINEL_TYPE h \<Longrightarrow> number f = fnum \<Longrightarrow>
   ftype f = LEN_TYPE \<Longrightarrow> fvalue f = Bytes buf \<Longrightarrow> fmemopen_ok s \<Longrightarrow>
   expand_inner s avail (fmemopen buf (length buf)) (length buf) fnum type msg
     = Some (Returns (None, msg', avail')) \<Longrightarrow>
   expand_outer h s avail msg cur fnum type
     = expand_outer h s avail' msg' (next_ptr msg' cur) fnum type"
  by (subst expand_outer.simps) simp

text \<open>
  C2. The expansion is to take the place of the packed field, which is removed. On the
  message of the packed field (1, 300, 65535) followed by one more field number 1, the
  call returns 1 and the three expanded fields, in order, with number 1 and type VARINT,
  stand at the end of the message, behind the other field; the packed field is still the
  first field. The comment of the function in the source promises the splice in place.
\<close>

theorem PB_expand_packed_fields_appends:
  "PB_expand_packed_fields example_hdr example_sys example_heap packed_msg 1 VARINT_TYPE =
     Some (Returns (1, packed_msg @ expanded_fields, example_heap - 120))
   \<and> packed_msg @ expanded_fields \<noteq> expanded_fields @ tl packed_msg"
proof -
  have differs: "packed_msg @ expanded_fields \<noteq> expanded_fields @ tl packed_msg"
    by (simp add: packed_msg_def expanded_fields_def)
  let ?m = "packed_msg @ expanded_fields"
  let ?a = "example_heap - 120"
  have big: "120 \<le> example_heap" by (simp add: example_heap_def)
  have len: "length packed_msg = 2" "length expanded_fields = 3"
    by (simp_all add: packed_msg_def expanded_fields_def)
  let ?p = "\<lparr>ftype = LEN_TYPE, number = 1, fvalue = Bytes packed_bytes\<rparr>"
  have d0: "deref packed_msg (Node 0) = Some ?p"
    by (simp add: deref_def packed_msg_def)
  have t0: "ftype ?p \<noteq> SENTINEL_TYPE example_hdr"
    by (simp add: example_hdr_def LEN_TYPE_def)
  have ok: "fmemopen_ok example_sys" by (simp add: example_sys_def)
  have s0: "expand_outer example_hdr example_sys example_heap packed_msg (Node 0) 1 VARINT_TYPE =
            expand_outer example_hdr example_sys ?a ?m (Node 1) 1 VARINT_TYPE"
    using expand_outer_packed [OF d0 t0 _ _ _ ok inner_run [OF big]]
    by (simp add: next_ptr_def packed_msg_def expanded_fields_def)
  have skip: "expand_outer example_hdr example_sys ?a ?m (Node i) 1 VARINT_TYPE =
              expand_outer example_hdr example_sys ?a ?m (next_ptr ?m (Node i)) 1 VARINT_TYPE"
    if "i \<in> {1, 2, 3, 4}" for i
    using that
    by (subst expand_outer_skip [where f = "?m ! i"])
       (auto simp: deref_def packed_msg_def expanded_fields_def example_hdr_def
          LEN_TYPE_def VARINT_TYPE_def)
  have n1: "next_ptr ?m (Node 1) = Node 2" and n2: "next_ptr ?m (Node 2) = Node 3"
    and n3: "next_ptr ?m (Node 3) = Node 4" and n4: "next_ptr ?m (Node 4) = Head"
    by (simp_all add: next_ptr_def len)
  have e1: "expand_outer example_hdr example_sys ?a ?m (Node 1) 1 VARINT_TYPE =
        expand_outer example_hdr example_sys ?a ?m (Node 2) 1 VARINT_TYPE"
    using skip [of 1] unfolding n1 by simp
  have e2: "expand_outer example_hdr example_sys ?a ?m (Node 2) 1 VARINT_TYPE =
        expand_outer example_hdr example_sys ?a ?m (Node 3) 1 VARINT_TYPE"
    using skip [of 2] unfolding n2 by simp
  have e3: "expand_outer example_hdr example_sys ?a ?m (Node 3) 1 VARINT_TYPE =
        expand_outer example_hdr example_sys ?a ?m (Node 4) 1 VARINT_TYPE"
    using skip [of 3] unfolding n3 by simp
  have e4: "expand_outer example_hdr example_sys ?a ?m (Node 4) 1 VARINT_TYPE =
        expand_outer example_hdr example_sys ?a ?m Head 1 VARINT_TYPE"
    using skip [of 4] unfolding n4 by simp
  have "expand_outer example_hdr example_sys ?a ?m (Node 1) 1 VARINT_TYPE =
        expand_outer example_hdr example_sys ?a ?m Head 1 VARINT_TYPE"
    by (simp only: e1 e2 e3 e4)
  also have "\<dots> = Some (Returns (1, ?m, ?a))"
    by (rule expand_outer_end) (simp add: deref_def)
  finally have "PB_expand_packed_fields example_hdr example_sys example_heap packed_msg 1
      VARINT_TYPE = Some (Returns (1, ?m, ?a))"
    using s0 by (simp add: PB_expand_packed_fields_def next_ptr_def packed_msg_def)
  with differs show ?thesis by (simp only: simp_thms)
qed

subsection \<open>The OSM accessors\<close>

text \<open>
  C10. Every OSM accessor that takes an object pointer is to return a defined failure
  value, not a crash, on \<open>NULL\<close>. Nine accessors are not implemented and end the
  process with \<open>abort()\<close>: called on \<open>NULL\<close> (with index 0 where they take one), none
  of them returns.
\<close>

theorem osm_unimplemented_accessors_abort:
  "OSM_Map_get_Node None 0 = Aborts \<and> OSM_Map_get_Way None 0 = Aborts
   \<and> OSM_Node_get_num_keys None = Aborts
   \<and> OSM_Node_get_key None 0 = Aborts \<and> OSM_Node_get_value None 0 = Aborts
   \<and> OSM_Way_get_ref None 0 = Aborts \<and> OSM_Way_get_num_keys None = Aborts
   \<and> OSM_Way_get_key None 0 = Aborts \<and> OSM_Way_get_value None 0 = Aborts"
  by (simp add: OSM_Map_get_Node_def OSM_Map_get_Way_def OSM_Node_get_num_keys_def
        OSM_Node_get_key_def OSM_Node_get_value_def OSM_Way_get_ref_def
        OSM_Way_get_num_keys_def OSM_Way_get_key_def OSM_Way_get_value_def)

text \<open>
  C10, as the code has it. The twelve implemented accessors return a defined failure
  value on \<open>NULL\<close>: the map counters, the node and way getters and the four
  bounding-box getters return \<open>-1\<close>, and \<open>OSM_Map_get_BBox\<close> returns \<open>NULL\<close>. For
  each of the scalar getters there is an object that stores \<open>-1\<close>, so the failure value
  cannot be told apart from a stored one. The nine accessors that are not implemented
  abort on every argument, \<open>NULL\<close> or not.
\<close>

theorem osm_accessors_null:
  "OSM_Map_get_num_nodes None = - 1 \<and> OSM_Map_get_num_ways None = - 1
   \<and> OSM_Node_get_id None = - 1 \<and> OSM_Node_get_lat None = - 1 \<and> OSM_Node_get_lon None = - 1
   \<and> OSM_Way_get_id None = - 1 \<and> OSM_Way_get_num_refs None = - 1
   \<and> OSM_BBox_get_min_lon None = - 1 \<and> OSM_BBox_get_max_lon None = - 1
   \<and> OSM_BBox_get_min_lat None = - 1 \<and> OSM_BBox_get_max_lat None = - 1
   \<and> OSM_Map_get_BBox None = None
   \<and> (\<exists>m. OSM_Map_get_num_nodes (Some m) = OSM_Map_get_num_nodes None)
   \<and> (\<exists>m. OSM_Map_get_num_ways (Some m) = OSM_Map_get_num_ways None)
   \<and> (\<exists>n. OSM_Node_get_id (Some n) = OSM_Node_get_id None)
   \<and> (\<exists>n. OSM_Node_get_lat (Some n) = OSM_Node_get_lat None)
   \<and> (\<exists>n. OSM_Node_get_lon (Some n) = OSM_Node_get_lon None)
   \<and> (\<exists>w. OSM_Way_get_id (Some w) = OSM_Way_get_id None)
   \<and> (\<exists>w. OSM_Way_get_num_refs (Some w) = OSM_Way_get_num_refs None)
   \<and> (\<exists>b. OSM_BBox_get_min_lon (Some b) = OSM_BBox_get_min_lon None)
   \<and> (\<exists>b. OSM_BBox_get_max_lon (Some b) = OSM_BBox_get_max_lon None)
   \<and> (\<exists>b. OSM_BBox_get_min_lat (Some b) = OSM_BBox_get_min_lat None)
   \<and> (\<exists>b. OSM_BBox_get_max_lat (Some b) = OSM_BBox_get_max_lat None)
   \<and> OSM_Map_get_Node mp i = Aborts \<and> OSM_Map_get_Way mp i = Aborts
   \<and> OSM_Node_get_num_keys np = Aborts
   \<and> OSM_Node_get_key np i = Aborts \<and> OSM_Node_get_value np i = Aborts
   \<and> OSM_Way_get_ref wp i = Aborts \<and> OSM_Way_get_num_keys wp = Aborts
   \<and> OSM_Way_get_key wp i = Aborts \<and> OSM_Way_get_value wp i = Aborts"
proof -
  let ?b = "\<lparr>min_lat = - 1, max_lat = - 1, min_lon = - 1, max_lon = - 1\<rparr>"
  let ?m = "\<lparr>bbox = ?b, nodes = None, num_nodes = - 1, ways = None, num_ways = - 1\<rparr>"
  let ?n = "\<lparr>node_id = - 1, node_lat = - 1, node_lon = - 1\<rparr>"
  let ?w = "\<lparr>way_id = - 1, num_refs = - 1\<rparr>"
  have nulls: "OSM_Map_get_num_nodes None = - 1" "OSM_Map_get_num_ways None = - 1"
    "OSM_Node_get_id None = - 1" "OSM_Node_get_lat None = - 1" "OSM_Node_get_lon None = - 1"
    "OSM_Way_get_id None = - 1" "OSM_Way_get_num_refs None = - 1"
    "OSM_BBox_get_min_lon None = - 1" "OSM_BBox_get_max_lon None = - 1"
    "OSM_BBox_get_min_lat None = - 1" "OSM_BBox_get_max_lat None = - 1"
    "OSM_Map_get_BBox None = None"
    by (simp_all add: OSM_Map_get_num_nodes_def OSM_Map_get_num_ways_def OSM_Node_get_id_def
        OSM_Node_get_lat_def OSM_Node_get_lon_def OSM_Way_get_id_def OSM_Way_get_num_refs_def
        OSM_BBox_get_min_lon_def OSM_BBox_get_max_lon_def OSM_BBox_get_min_lat_def
        OSM_BBox_get_max_lat_def OSM_Map_get_BBox_def)
  have m: "OSM_Map_get_num_nodes (Some ?m) = OSM_Map_get_num_nodes None"
    "OSM_Map_get_num_ways (Some ?m) = OSM_Map_get_num_ways None"
    by (simp_all add: OSM_Map_get_num_nodes_def OSM_Map_get_num_ways_def)
  have n: "OSM_Node_get_id (Some ?n) = OSM_Node_get_id None"
    "OSM_Node_get_lat (Some ?n) = OSM_Node_get_lat None"
    "OSM_Node_get_lon (Some ?n) = OSM_Node_get_lon None"
    by (simp_all add: OSM_Node_get_id_def OSM_Node_get_lat_def OSM_Node_get_lon_def)
  have w: "OSM_Way_get_id (Some ?w) = OSM_Way_get_id None"
    "OSM_Way_get_num_refs (Some ?w) = OSM_Way_get_num_refs None"
    by (simp_all add: OSM_Way_get_id_def OSM_Way_get_num_refs_def)
  have b: "OSM_BBox_get_min_lon (Some ?b) = OSM_BBox_get_min_lon None"
    "OSM_BBox_get_max_lon (Some ?b) = OSM_BBox_get_max_lon None"
    "OSM_BBox_get_min_lat (Some ?b) = OSM_BBox_get_min_lat None"
    "OSM_BBox_get_max_lat (Some ?b) = OSM_BBox_get_max_lat None"
    by (simp_all add: OSM_BBox_get_min_lon_def OSM_BBox_get_max_lon_def
        OSM_BBox_get_min_lat_def OSM_BBox_get_max_lat_def)
  have stubs: "OSM_Map_get_Node mp i = Aborts" "OSM_Map_get_Way mp i = Aborts"
    "OSM_Node_get_num_keys np = Aborts"
    "OSM_Node_get_key np i = Aborts" "OSM_Node_get_value np i = Aborts"
    "OSM_Way_get_ref wp i = Aborts" "OSM_Way_get_num_keys wp = Aborts"
    "OSM_Way_get_key wp i = Aborts" "OSM_Way_get_value wp i = Aborts"
    by (simp_all add: OSM_Map_get_Node_def OSM_Map_get_Way_def OSM_Node_get_num_keys_def
        OSM_Node_get_key_def OSM_Node_get_value_def OSM_Way_get_ref_def
        OSM_Way_get_num_keys_def OSM_Way_get_key_def OSM_Way_get_value_def)
  from nulls m n w b stubs show ?thesis by blast
qed

end
